(* ===== verification/Bistro_Prelude.thy ===== *)
theory Bistro_Prelude
  imports Complex_Main "HOL-Library.Word" "HOL-Library.AList"
begin

unbundle bit_operations_syntax

text \<open>
  Shared vocabulary of the development: results that may fail, fixed-width
  integer conversions, the C++ standard containers and algorithms the sources
  use, and \<open>folly::dynamic\<close> as a datatype of JSON values.  Nothing here
  models a component of Bistro; the component theories build on these
  definitions and on the simplification rules collected here.
\<close>

named_theorems bistro_defs \<open>operations of a component, to be unfolded together\<close>
named_theorems status_bits \<open>facts on the individual bits of a task status\<close>


section \<open>Results that may fail\<close>

text \<open>
  A function of the sources that can throw returns a value of a sum type, the
  left summand holding the error.  A failed \<^verbatim>\<open>CHECK\<close> or a
  \<^verbatim>\<open>LOG(FATAL)\<close> ends the process: where a function can do only that, its
  model returns an option and \<open>None\<close> is the abort.
\<close>

definition bindR :: "'e + 'a \<Rightarrow> ('a \<Rightarrow> 'e + 'b) \<Rightarrow> 'e + 'b" where
  "bindR r f = (case r of Inl e \<Rightarrow> Inl e | Inr x \<Rightarrow> f x)"

text \<open>A loop over a container whose body may throw: the first error ends it.\<close>

fun foldR :: "('a \<Rightarrow> 's \<Rightarrow> 'e + 's) \<Rightarrow> 'a list \<Rightarrow> 's \<Rightarrow> 'e + 's" where
  "foldR f [] s = Inr s"
| "foldR f (x # xs) s = (case f x s of Inl e \<Rightarrow> Inl e | Inr s' \<Rightarrow> foldR f xs s')"

text \<open>The same for a body that may abort the process.\<close>

fun foldO :: "('a \<Rightarrow> 's \<Rightarrow> 's option) \<Rightarrow> 'a list \<Rightarrow> 's \<Rightarrow> 's option" where
  "foldO f [] s = Some s"
| "foldO f (x # xs) s = (case f x s of None \<Rightarrow> None | Some s' \<Rightarrow> foldO f xs s')"


section \<open>Fixed-width integers\<close>

text \<open>
  Conversions of a mathematical integer to the signed 32-bit and 64-bit types
  of the sources (two's complement, as the compilers the sources support do).
\<close>

definition i32 :: "int \<Rightarrow> int" where
  "i32 n = signed_take_bit 31 n"

definition i64 :: "int \<Rightarrow> int" where
  "i64 n = signed_take_bit 63 n"

type_synonym u16 = "16 word"
type_synonym u32 = "32 word"
type_synonym u64 = "64 word"


section \<open>Standard algorithms on sorted sequences\<close>

text \<open>
  \<^verbatim>\<open>std::upper_bound\<close> and \<^verbatim>\<open>std::lower_bound\<close> return an iterator into a
  sorted range; an iterator is modelled by the suffix of the range it points
  at, so that \<^verbatim>\<open>end()\<close> is the empty list.
\<close>

definition upper_bound :: "'a::linorder list \<Rightarrow> 'a \<Rightarrow> 'a list" where
  "upper_bound xs v = dropWhile (\<lambda>x. \<not> v < x) xs"

definition lower_bound :: "'a::linorder list \<Rightarrow> 'a \<Rightarrow> 'a list" where
  "lower_bound xs v = dropWhile (\<lambda>x. x < v) xs"


section \<open>Hash maps\<close>

text \<open>
  A \<^verbatim>\<open>std::unordered_map\<close> is an association list with distinct keys.  The
  order of the list stands for the iteration order, which the C++ library
  leaves open: statements about all such lists cover every iteration order.
\<close>

definition um_emplace :: "('k \<times> 'v) list \<Rightarrow> 'k \<Rightarrow> 'v \<Rightarrow> ('k \<times> 'v) list \<times> bool" where
  "um_emplace m k v =
     (case map_of m k of None \<Rightarrow> ((k, v) # m, True) | Some _ \<Rightarrow> (m, False))"

definition um_wf :: "('k \<times> 'v) list \<Rightarrow> bool" where
  "um_wf m \<longleftrightarrow> distinct (map fst m)"


section \<open>JSON values\<close>

text \<open>
  \<^verbatim>\<open>folly::dynamic\<close> as the datatype of JSON values it is documented to be.
  Conversions that \<^verbatim>\<open>folly\<close> performs between these types are not defined here:
  where a source calls one, it is a parameter of the model.
\<close>

datatype dynamic =
    DNull
  | DBool bool
  | DInt int
  | DDouble rat
  | DString string
  | DArray "dynamic list"
  | DObject "(string \<times> dynamic) list"

text \<open>
  The parts of \<^verbatim>\<open>folly\<close> whose results the sources use but whose code is not
  theirs: the JSON parser and printer, the conversions of a JSON value to an
  integer, a string or a double, the text of the error that an access to a value of the
  wrong type throws, and decimal printing.  The left summand is the
  \<^verbatim>\<open>what()\<close> of the exception thrown.
\<close>

record folly =
  parseJson :: "string \<Rightarrow> string + dynamic"
  toJson :: "dynamic \<Rightarrow> string"
  asInt :: "dynamic \<Rightarrow> string + int"
  asString :: "dynamic \<Rightarrow> string + string"
  asDouble :: "dynamic \<Rightarrow> string + rat"
  type_error :: "dynamic \<Rightarrow> string"
  to_string :: "int \<Rightarrow> string"

text \<open>
  Reading, writing and erasing a key of an object; \<^verbatim>\<open>get_ptr\<close> and \<^verbatim>\<open>erase\<close>
  throw on a value that is not an object.
\<close>

definition dyn_get_ptr :: "folly \<Rightarrow> dynamic \<Rightarrow> string \<Rightarrow> string + dynamic option" where
  "dyn_get_ptr F d k =
     (case d of DObject kvs \<Rightarrow> Inr (map_of kvs k) | _ \<Rightarrow> Inl (type_error F d))"

definition dyn_erase :: "folly \<Rightarrow> dynamic \<Rightarrow> string \<Rightarrow> string + dynamic" where
  "dyn_erase F d k =
     (case d of DObject kvs \<Rightarrow> Inr (DObject (AList.delete k kvs)) | _ \<Rightarrow> Inl (type_error F d))"

text \<open>\<^verbatim>\<open>empty()\<close>, on the values it is defined for.\<close>

fun dyn_empty :: "dynamic \<Rightarrow> bool" where
  "dyn_empty DNull = True"
| "dyn_empty (DString s) = (s = [])"
| "dyn_empty (DArray xs) = (xs = [])"
| "dyn_empty (DObject kvs) = (kvs = [])"
| "dyn_empty _ = False"

fun dyn_set :: "dynamic \<Rightarrow> string \<Rightarrow> dynamic \<Rightarrow> dynamic" where
  "dyn_set (DObject kvs) k v = DObject (AList.update k v kvs)"
| "dyn_set d k v = d"


section \<open>Lemmas\<close>

lemma bindR_simps [simp]:
  "bindR (Inl e) f = Inl e"
  "bindR (Inr x) f = f x"
  by (simp_all add: bindR_def)

lemma bindR_eq_Inr: "bindR r f = Inr y \<longleftrightarrow> (\<exists>x. r = Inr x \<and> f x = Inr y)"
  by (cases r) auto

lemma bindR_cong [fundef_cong]:
  "r = r' \<Longrightarrow> (\<And>x. r' = Inr x \<Longrightarrow> f x = g x) \<Longrightarrow> bindR r f = bindR r' g"
  by (cases r') auto

text \<open>The loop rules: what every iteration keeps, the whole loop keeps.\<close>

lemma foldR_invariant:
  assumes "foldR f xs s = Inr t" and "I s"
    and "\<And>x s s'. x \<in> set xs \<Longrightarrow> I s \<Longrightarrow> f x s = Inr s' \<Longrightarrow> I s'"
  shows "I t"
  using assms
proof (induction xs arbitrary: s)
  case Nil
  then show ?case by simp
next
  case (Cons x xs)
  then obtain s' where "f x s = Inr s'" and "foldR f xs s' = Inr t"
    by (auto split: sum.splits)
  with Cons show ?case by (metis list.set_intros)
qed

lemma foldO_invariant:
  assumes "foldO f xs s = Some t" and "I s"
    and "\<And>x s s'. x \<in> set xs \<Longrightarrow> I s \<Longrightarrow> f x s = Some s' \<Longrightarrow> I s'"
  shows "I t"
  using assms
proof (induction xs arbitrary: s)
  case Nil
  then show ?case by simp
next
  case (Cons x xs)
  then obtain s' where "f x s = Some s'" and "foldO f xs s' = Some t"
    by (auto split: option.splits)
  with Cons show ?case by (metis list.set_intros)
qed

lemma foldO_total:
  assumes "I s"
    and "\<And>x s. x \<in> set xs \<Longrightarrow> I s \<Longrightarrow> \<exists>s'. f x s = Some s' \<and> I s'"
  shows "\<exists>t. foldO f xs s = Some t \<and> I t"
  using assms
proof (induction xs arbitrary: s)
  case Nil
  then show ?case by simp
next
  case (Cons x xs)
  then obtain s' where "f x s = Some s'" and "I s'"
    by (meson list.set_intros(1))
  with Cons show ?case by (metis foldO.simps(2) list.set_intros(2) option.simps(5))
qed

lemma foldO_append: "foldO f (xs @ ys) s = Option.bind (foldO f xs s) (foldO f ys)"
  by (induction xs arbitrary: s) (auto split: option.splits)

text \<open>A number without a bit in common with its predecessor is a power of two.\<close>

lemma and_pred_eq_0_power:
  fixes n :: nat
  assumes "0 < n" and "n AND (n - 1) = 0"
  shows "\<exists>k. n = 2 ^ k"
  using assms
proof (induction n rule: less_induct)
  case (less n)
  show ?case
  proof (cases "even n")
    case True
    then obtain m where m: "n = 2 * m" by auto
    have "(n - 1) div 2 = m - 1" using m by simp
    with less.prems m have "0 < m" "m AND (m - 1) = 0"
      using and_nat_rec [of n "n - 1"] by auto
    with less.IH [of m] m obtain k where "m = 2 ^ k" by auto
    with m have "n = 2 ^ Suc k" by simp
    then show ?thesis by blast
  next
    case False
    then obtain m where m: "n = 2 * m + 1" by (auto elim: oddE)
    with less.prems have "m = 0"
      using and_nat_rec [of n "n - 1"] by auto
    with m have "n = 2 ^ 0" by simp
    then show ?thesis by blast
  qed
qed

lemma i32_id [simp]: "- (2 ^ 31) \<le> n \<Longrightarrow> n < 2 ^ 31 \<Longrightarrow> i32 n = n"
  by (simp add: i32_def signed_take_bit_int_eq_self)

lemma i32_bounds: "- (2 ^ 31) \<le> i32 n" "i32 n < 2 ^ 31"
  using signed_take_bit_int_greater_eq_minus_exp [of 31 n]
    signed_take_bit_int_less_exp [of 31 n]
  by (simp_all add: i32_def)

lemma i32_idem [simp]: "i32 (i32 n) = i32 n"
  by (simp add: i32_def)

lemma upper_bound_Cons [simp]:
  "upper_bound [] v = []"
  "upper_bound (x # xs) v = (if v < x then x # xs else upper_bound xs v)"
  by (simp_all add: upper_bound_def)

lemma lower_bound_Cons [simp]:
  "lower_bound [] v = []"
  "lower_bound (x # xs) v = (if x < v then lower_bound xs v else x # xs)"
  by (simp_all add: lower_bound_def)

lemma upper_bound_hd:
  assumes "sorted xs" and "upper_bound xs v = y # ys"
  shows "y \<in> set xs" "v < y" "\<forall>x \<in> set xs. v < x \<longrightarrow> y \<le> x"
  using assms by (induction xs) (auto split: if_splits)

lemma upper_bound_Nil: "upper_bound xs v = [] \<longleftrightarrow> (\<forall>x \<in> set xs. x \<le> v)"
  by (induction xs) auto

lemma lower_bound_hd:
  assumes "sorted xs" and "lower_bound xs v = y # ys"
  shows "y \<in> set xs" "v \<le> y" "\<forall>x \<in> set xs. v \<le> x \<longrightarrow> y \<le> x"
  using assms by (induction xs) (auto split: if_splits)

lemma lower_bound_Nil: "lower_bound xs v = [] \<longleftrightarrow> (\<forall>x \<in> set xs. x < v)"
  by (induction xs) auto

lemma um_emplace_lookup:
  "um_emplace m k v = (m', b) \<Longrightarrow>
     map_of m' = (if b then (map_of m)(k \<mapsto> v) else map_of m) \<and> (b \<longleftrightarrow> map_of m k = None)"
  by (auto simp: um_emplace_def split: option.splits)

lemma um_emplace_wf [simp]: "um_wf m \<Longrightarrow> um_wf (fst (um_emplace m k v))"
  by (auto simp: um_emplace_def um_wf_def map_of_eq_None_iff split: option.splits)

lemma um_wf_delete [simp]: "um_wf m \<Longrightarrow> um_wf (AList.delete k m)"
  by (simp add: um_wf_def distinct_delete)

lemma um_wf_Nil [simp]: "um_wf []"
  by (simp add: um_wf_def)

end
