(* ===== verification/Symbol_Table.thy ===== *)
theory Symbol_Table
  imports Bistro_Prelude
begin

text \<open>
  \<^verbatim>\<open>utils/SymbolTable.h\<close>: the table that maps names to consecutive small
  integers.  The names of jobs, nodes, levels and resources all live in such
  tables, and the identifiers are used as indices of vectors, so that two
  properties matter: distinct names have distinct identifiers, and an
  identifier never changes.
\<close>

section \<open>Model\<close>

record 'a SymbolTable =
  objToIndex :: "('a \<times> int) list"
  objects :: "'a list"

definition NotFound :: int where "NotFound = -1"

definition st_empty :: "'a SymbolTable" where
  "st_empty = \<lparr>objToIndex = [], objects = []\<rparr>"

text \<open>The constructor from an initializer list: a later duplicate wins.\<close>

definition st_init :: "'a list \<Rightarrow> 'a SymbolTable" where
  "st_init items =
     \<lparr>objToIndex = fold (\<lambda>i m. AList.update (items ! i) (int i) m) [0..<length items] [],
      objects = items\<rparr>"

definition st_lookup :: "'a SymbolTable \<Rightarrow> 'a \<Rightarrow> int" where
  "st_lookup t obj = (case map_of (objToIndex t) obj of Some i \<Rightarrow> i | None \<Rightarrow> NotFound)"

definition st_insert :: "'a \<Rightarrow> 'a SymbolTable \<Rightarrow> 'a SymbolTable \<times> int" where
  "st_insert obj t =
     (case map_of (objToIndex t) obj of
        Some i \<Rightarrow> (t, i)
      | None \<Rightarrow>
          let index = int (length (objects t)) in
          (\<lparr>objToIndex = AList.update obj index (objToIndex t), objects = objects t @ [obj]\<rparr>,
           index))"

text \<open>The unchecked \<^verbatim>\<open>objects_[id]\<close>; \<open>None\<close> is an access outside the vector.\<close>

definition st_name :: "'a SymbolTable \<Rightarrow> int \<Rightarrow> 'a option" where
  "st_name t i = (if 0 \<le> i \<and> i < int (length (objects t)) then Some (objects t ! nat i) else None)"

definition st_size :: "'a SymbolTable \<Rightarrow> nat" where
  "st_size t = length (objects t)"

text \<open>The class invariant: the hash map is the inverse of the vector.\<close>

definition st_wf :: "'a SymbolTable \<Rightarrow> bool" where
  "st_wf t \<longleftrightarrow>
     distinct (objects t) \<and>
     map_of (objToIndex t) = map_of (zip (objects t) (map int [0..<length (objects t)]))"

declare st_lookup_def [bistro_defs] st_insert_def [bistro_defs] st_name_def [bistro_defs]


section \<open>The invariant\<close>

lemma st_wf_map:
  "st_wf t \<Longrightarrow> map_of (objToIndex t) obj = Some i \<longleftrightarrow>
     0 \<le> i \<and> i < int (length (objects t)) \<and> objects t ! nat i = obj"
proof -
  assume wf: "st_wf t"
  then have "map_of (objToIndex t) obj = Some i \<longleftrightarrow>
      (obj, i) \<in> set (zip (objects t) (map int [0..<length (objects t)]))"
    by (simp add: st_wf_def map_of_eq_Some_iff)
  also have "\<dots> \<longleftrightarrow> 0 \<le> i \<and> i < int (length (objects t)) \<and> objects t ! nat i = obj"
    by (auto simp: in_set_zip zless_nat_eq_int_zless intro!: exI [of _ "nat i"])
  finally show ?thesis .
qed

lemma st_wf_None:
  assumes "st_wf t"
  shows "map_of (objToIndex t) obj = None \<longleftrightarrow> obj \<notin> set (objects t)"
  using assms by (simp add: st_wf_def map_of_zip_is_None)

lemma st_empty_wf [simp]: "st_wf st_empty"
  by (simp add: st_wf_def st_empty_def)

lemma map_of_index_snoc:
  assumes "x \<notin> set xs"
  shows "map_of (zip (xs @ [x]) (map int [0..<Suc (length xs)])) =
    (map_of (zip xs (map int [0..<length xs])))(x \<mapsto> int (length xs))"
proof -
  define m where "m = map_of (zip xs (map int [0..<length xs]))"
  have "m x = None" using assms by (simp add: m_def)
  then have "[x \<mapsto> int (length xs)] ++ m = m(x \<mapsto> int (length xs))"
    by (subst map_add_comm) auto
  then show ?thesis by (simp add: m_def)
qed

lemma st_insert_wf:
  assumes "st_wf t"
  shows "st_wf (fst (st_insert obj t))"
proof (cases "map_of (objToIndex t) obj")
  case None
  with assms have "obj \<notin> set (objects t)" by (simp add: st_wf_None)
  moreover have "fst (st_insert obj t) =
      \<lparr>objToIndex = AList.update obj (int (length (objects t))) (objToIndex t),
       objects = objects t @ [obj]\<rparr>"
    using None by (simp add: st_insert_def Let_def)
  ultimately show ?thesis
    using assms map_of_index_snoc [of obj "objects t"]
    by (simp add: st_wf_def update_conv' del: upt_Suc)
next
  case (Some i)
  with assms show ?thesis by (simp add: st_insert_def)
qed

lemma st_insert_lookup:
  assumes "st_wf t" and "st_insert obj t = (t', i)"
  shows "st_lookup t' obj = i" and "0 \<le> i"
    and "\<And>x. st_lookup t x \<noteq> NotFound \<Longrightarrow> st_lookup t' x = st_lookup t x"
    and "\<And>x. x \<noteq> obj \<Longrightarrow> st_lookup t' x = st_lookup t x"
proof -
  have nonneg: "map_of (objToIndex t) obj = Some j \<Longrightarrow> 0 \<le> j" for j
    using st_wf_map [OF assms(1), of obj j] by simp
  show "st_lookup t' obj = i" "0 \<le> i"
      "\<And>x. st_lookup t x \<noteq> NotFound \<Longrightarrow> st_lookup t' x = st_lookup t x"
      "\<And>x. x \<noteq> obj \<Longrightarrow> st_lookup t' x = st_lookup t x"
    using assms(2) nonneg
    by (cases "map_of (objToIndex t) obj";
        auto simp: st_insert_def st_lookup_def Let_def update_conv')+
qed

lemma st_lookup_name:
  assumes "st_wf t" and "st_lookup t obj \<noteq> NotFound"
  shows "st_name t (st_lookup t obj) = Some obj"
  using assms st_wf_map [OF assms(1), of obj "st_lookup t obj"]
  by (cases "map_of (objToIndex t) obj") (simp_all add: st_lookup_def st_name_def)

lemma st_name_lookup:
  assumes "st_wf t" and "st_name t i = Some obj"
  shows "st_lookup t obj = i"
  using assms st_wf_map [OF assms(1), of obj i]
  by (simp add: st_lookup_def st_name_def split: if_splits)

lemma st_init_objToIndex:
  assumes "distinct items" and "n \<le> length items"
  shows "map_of (fold (\<lambda>i m. AList.update (items ! i) (int i) m) [0..<n] []) =
    map_of (zip (take n items) (map int [0..<n]))"
  using assms(2)
proof (induction n)
  case (Suc n)
  then have "items ! n \<notin> set (take n items)"
    using assms(1) by (auto simp: in_set_conv_nth nth_eq_iff_index_eq)
  then have "map_of (zip (take (Suc n) items) (map int [0..<Suc n])) =
      (map_of (zip (take n items) (map int [0..<n])))(items ! n \<mapsto> int n)"
    using map_of_index_snoc [of "items ! n" "take n items"] Suc.prems
    by (simp add: take_Suc_conv_app_nth min_absorb2 del: upt_Suc)
  moreover have "map_of (fold (\<lambda>i m. AList.update (items ! i) (int i) m) [0..<Suc n] []) =
      (map_of (fold (\<lambda>i m. AList.update (items ! i) (int i) m) [0..<n] []))
        (items ! n \<mapsto> int n)"
    by (simp add: update_conv')
  ultimately show ?case using Suc by (simp only: Suc_leD)
qed simp

lemma st_init_wf: "distinct items \<Longrightarrow> st_wf (st_init items)"
  using st_init_objToIndex [of items "length items"] by (simp add: st_wf_def st_init_def)


section \<open>The contract of an interning table\<close>

locale intern_table =
  fixes lookup :: "'t \<Rightarrow> 'a \<Rightarrow> int"
    and insert_name :: "'a \<Rightarrow> 't \<Rightarrow> 't \<times> int"
    and name_of :: "'t \<Rightarrow> int \<Rightarrow> 'a option"
    and inv :: "'t \<Rightarrow> bool"
  assumes insert_inv: "inv t \<Longrightarrow> inv (fst (insert_name x t))"
    and insert_finds: "inv t \<Longrightarrow> insert_name x t = (t', i) \<Longrightarrow> lookup t' x = i \<and> 0 \<le> i"
    and insert_keeps:
      "inv t \<Longrightarrow> insert_name x t = (t', i) \<Longrightarrow> lookup t y \<noteq> -1 \<Longrightarrow> lookup t' y = lookup t y"
    and lookup_name: "inv t \<Longrightarrow> lookup t x \<noteq> -1 \<Longrightarrow> name_of t (lookup t x) = Some x"
begin

text \<open>The table after a sequence of insertions.\<close>

definition insert_all :: "'a list \<Rightarrow> 't \<Rightarrow> 't" where
  "insert_all xs t = fold (\<lambda>x t. fst (insert_name x t)) xs t"

lemma lookup_inj:
  "inv t \<Longrightarrow> lookup t x = lookup t y \<Longrightarrow> lookup t x \<noteq> -1 \<Longrightarrow> x = y"
  using lookup_name by (metis option.inject)

lemma insert_all_inv: "inv t \<Longrightarrow> inv (insert_all xs t)"
  unfolding insert_all_def by (induction xs arbitrary: t) (auto simp: insert_inv)

lemma insert_all_keeps:
  "inv t \<Longrightarrow> lookup t y \<noteq> -1 \<Longrightarrow> lookup (insert_all xs t) y = lookup t y"
proof (unfold insert_all_def, induction xs arbitrary: t)
  case (Cons x xs)
  obtain t' i where t': "insert_name x t = (t', i)" by fastforce
  with Cons.prems have "lookup t' y = lookup t y" "inv t'"
    using insert_keeps insert_inv [of t x] by auto
  with Cons t' show ?case by simp
qed simp

lemma insert_all_finds:
  "inv t \<Longrightarrow> x \<in> set xs \<Longrightarrow> lookup (insert_all xs t) x \<noteq> -1"
proof (induction xs arbitrary: t)
  case (Cons y ys)
  obtain t' i where t': "insert_name y t = (t', i)" by fastforce
  with Cons.prems have inv: "inv t'" and y: "lookup t' y \<noteq> -1"
    using insert_inv [of t y] insert_finds [of t y t' i] by auto
  have rest: "insert_all (y # ys) t = insert_all ys t'" using t' by (simp add: insert_all_def)
  show ?case
  proof (cases "x = y")
    case True
    with insert_all_keeps [OF inv y] y show ?thesis by (simp add: rest)
  next
    case False
    with Cons inv show ?thesis by (simp add: rest)
  qed
qed simp

end

interpretation names: intern_table st_lookup st_insert st_name st_wf
proof unfold_locales
  fix t :: "'a SymbolTable" and x t' i y
  assume wf: "st_wf t"
  show "st_wf (fst (st_insert x t))" by (rule st_insert_wf [OF wf])
  show "st_insert x t = (t', i) \<Longrightarrow> st_lookup t' x = i \<and> 0 \<le> i"
    using st_insert_lookup(1,2) [OF wf] by blast
  show "st_insert x t = (t', i) \<Longrightarrow> st_lookup t y \<noteq> -1 \<Longrightarrow> st_lookup t' y = st_lookup t y"
    using st_insert_lookup(3) [OF wf] by (simp add: NotFound_def)
  show "st_lookup t x \<noteq> -1 \<Longrightarrow> st_name t (st_lookup t x) = Some x"
    using st_lookup_name [OF wf] by (simp add: NotFound_def)
qed


section \<open>Properties\<close>



end
