(* ===== verification/Node_Tree.thy ===== *)
theory Node_Tree
  imports Symbol_Table
begin

text \<open>
  \<^verbatim>\<open>config/Node\<close> and \<^verbatim>\<open>nodes/Nodes\<close>: the nodes tasks run on.  A node holds a
  pointer to its parent; here it holds the parent itself, so that the chain
  that \<^verbatim>\<open>NodeParentIterator\<close> walks is the list \<open>traverseUp\<close>.  The mutable
  \<^verbatim>\<open>offset\<close> of a node belongs to the scheduler and is part of its state.
\<close>

section \<open>Model\<close>

datatype Node =
  Node (node_id: nat) (node_name: string) (node_level: nat) (node_enabled: bool)
    (node_parent: "Node option") (node_tags: "string list")

text \<open>The constructor interns the name.\<close>

definition mkNode ::
  "string \<Rightarrow> nat \<Rightarrow> bool \<Rightarrow> Node option \<Rightarrow> string list \<Rightarrow> string SymbolTable \<Rightarrow>
   string SymbolTable \<times> Node" where
  "mkNode n l e p tags nodeNameTable =
     (case st_insert n nodeNameTable of (t, i) \<Rightarrow> (t, Node (nat i) n l e p tags))"

fun traverseUp :: "Node \<Rightarrow> Node list" where
  "traverseUp (Node i n l e p tags) =
     Node i n l e p tags # (case p of None \<Rightarrow> [] | Some q \<Rightarrow> traverseUp q)"

fun getPathToNode :: "Node \<Rightarrow> string list" where
  "getPathToNode (Node i n l e p tags) =
     (case p of None \<Rightarrow> [n] | Some q \<Rightarrow> getPathToNode q @ [n])"

definition hasTags :: "Node \<Rightarrow> string list \<Rightarrow> bool" where
  "hasTags n tags \<longleftrightarrow> list_ex (\<lambda>t. t \<in> set (node_tags n)) tags"

text \<open>The collection of nodes: the instance node comes first.\<close>

definition mkNodes :: "string \<Rightarrow> string SymbolTable \<Rightarrow> string SymbolTable \<times> Node list" where
  "mkNodes instance_node_name t =
     (case mkNode instance_node_name 0 True None [] t of (t', n) \<Rightarrow> (t', [n]))"

definition getInstanceNodeName :: "string \<Rightarrow> string \<Rightarrow> string" where
  "getInstanceNodeName flag_instance_node_name local_host_name =
     (if flag_instance_node_name = [] then local_host_name else flag_instance_node_name)"

definition nodes_add :: "Node \<Rightarrow> Node list \<Rightarrow> Node list" where
  "nodes_add n nodes = nodes @ [n]"

definition iterateOverLevel :: "nat \<Rightarrow> Node list \<Rightarrow> Node list" where
  "iterateOverLevel l nodes = filter (\<lambda>n. node_level n = l) nodes"

definition getInstance :: "Node list \<Rightarrow> Node option" where
  "getInstance nodes = (case nodes of [] \<Rightarrow> None | n # _ \<Rightarrow> Some n)"


section \<open>Lemmas\<close>

lemma traverseUp_parent:
  "traverseUp n = n # (case node_parent n of None \<Rightarrow> [] | Some p \<Rightarrow> traverseUp p)"
  by (cases n) simp

lemma traverseUp_self [simp]: "n \<in> set (traverseUp n)"
  by (subst traverseUp_parent) simp

lemma getPathToNode_traverseUp: "getPathToNode n = rev (map node_name (traverseUp n))"
  by (induction n rule: traverseUp.induct) (auto split: option.splits)

end
