(* ===== verification/Thrift_Types.thy ===== *)
theory Thrift_Types
  imports Bistro_Prelude
begin

text \<open>
  The structs of \<^verbatim>\<open>if/common.thrift\<close> that the scheduler and the remote worker
  protocol exchange, one record each.  Fields that no modelled code reads
  (log lines, measured physical resources) are left out.
\<close>

record BackoffDuration =
  noMoreBackoffs :: bool
  seconds :: int

record Resource =
  res_name :: string
  res_amount :: int

record NodeResources =
  nr_node :: string
  nr_resources :: "Resource list"

text \<open>Identifies one invocation of a task, or one instance of a scheduler or worker.\<close>

record BistroInstanceID =
  startTime :: u64
  rand :: u64

record RunningTask =
  rt_job :: string
  rt_node :: string
  nodeResources :: "NodeResources list"
  workerShard :: string
  invocationID :: BistroInstanceID
  nextBackoffDuration :: BackoffDuration
  workerSuicideTaskKillWaitMs :: int

end
