(* ===== verification/Backoff.thy ===== *)
theory Backoff
  imports Thrift_Types
begin

text \<open>
  \<^verbatim>\<open>config/JobBackoffSettings\<close>: the list of retry delays of a job, its parser
  and printer, and the choice of the next delay.  The invariant is that the
  delays are positive and strictly increasing and that a repeating setting has
  one to repeat.
\<close>

section \<open>Model\<close>

record JobBackoffSettings =
  backoff_values :: "int list"
  backoff_repeat :: bool

datatype backoff_error =
    ExpectedArray dynamic
  | BackoffSettingEmpty
  | BackoffNotPositive int
  | DuplicateBackoff int
  | BackoffNotIncreasing
  | NoIntervalBeforeRepeat
  | UnknownBackoffString string
  | InvalidBackoffValue dynamic

text \<open>The loop of the constructor; a string ends it, as its \<^verbatim>\<open>break\<close> does.\<close>

fun parse_backoff_items ::
  "dynamic list \<Rightarrow> JobBackoffSettings \<Rightarrow> backoff_error + JobBackoffSettings" where
  "parse_backoff_items [] s = Inr s"
| "parse_backoff_items (DInt n # items) s =
     (let val = i32 n in
      if val \<le> 0 then Inl (BackoffNotPositive val)
      else if backoff_values s \<noteq> [] \<and> last (backoff_values s) = val
        then Inl (DuplicateBackoff val)
      else if backoff_values s \<noteq> [] \<and> last (backoff_values s) > val
        then Inl BackoffNotIncreasing
      else parse_backoff_items items
             (s\<lparr>backoff_values := backoff_values s @ [val]\<rparr>))"
| "parse_backoff_items (DString str # items) s =
     (if str = ''repeat'' then
        (if backoff_values s = [] then Inl NoIntervalBeforeRepeat
         else Inr (s\<lparr>backoff_repeat := True\<rparr>))
      else if str \<noteq> ''fail'' then Inl (UnknownBackoffString str)
      else Inr s)"
| "parse_backoff_items (item # items) s = Inl (InvalidBackoffValue item)"

definition makeJobBackoffSettings :: "dynamic \<Rightarrow> backoff_error + JobBackoffSettings" where
  "makeJobBackoffSettings d =
     (case d of
        DArray items \<Rightarrow>
          if items = [] then Inl BackoffSettingEmpty
          else parse_backoff_items items \<lparr>backoff_values = [], backoff_repeat = False\<rparr>
      | _ \<Rightarrow> Inl (ExpectedArray d))"

definition defaultJobBackoffSettings :: "backoff_error + JobBackoffSettings" where
  "defaultJobBackoffSettings = makeJobBackoffSettings
     (DArray [DInt 15, DInt 30, DInt 60, DInt 300, DInt 900, DInt 3600, DInt 7200,
              DInt 21600, DInt 86400, DString ''repeat''])"

text \<open>\<open>None\<close> is the failure of the \<^verbatim>\<open>CHECK\<close> that the current backoff is not final.\<close>

definition getNext :: "JobBackoffSettings \<Rightarrow> BackoffDuration \<Rightarrow> BackoffDuration option" where
  "getNext s cur_backoff =
     (if noMoreBackoffs cur_backoff then None
      else Some
        (case upper_bound (backoff_values s) (seconds cur_backoff) of
           v # _ \<Rightarrow> \<lparr>noMoreBackoffs = False, seconds = v\<rparr>
         | [] \<Rightarrow>
             if backoff_repeat s
             then \<lparr>noMoreBackoffs = False, seconds = last (backoff_values s)\<rparr>
             else \<lparr>noMoreBackoffs = True, seconds = 60\<rparr>))"

definition backoff_toDynamic :: "JobBackoffSettings \<Rightarrow> dynamic" where
  "backoff_toDynamic s =
     DArray (map DInt (backoff_values s) @
       [DString (if backoff_repeat s then ''repeat'' else ''fail'')])"

definition backoff_eq :: "JobBackoffSettings \<Rightarrow> JobBackoffSettings \<Rightarrow> bool" where
  "backoff_eq s other \<longleftrightarrow>
     backoff_repeat s = backoff_repeat other \<and> backoff_values s = backoff_values other"

text \<open>The class invariant.\<close>

definition backoff_wf :: "JobBackoffSettings \<Rightarrow> bool" where
  "backoff_wf s \<longleftrightarrow>
     sorted_wrt (<) (backoff_values s) \<and>
     (\<forall>v \<in> set (backoff_values s). 0 < v \<and> v < 2 ^ 31) \<and>
     (backoff_repeat s \<longrightarrow> backoff_values s \<noteq> [])"

declare makeJobBackoffSettings_def [bistro_defs] getNext_def [bistro_defs]
  backoff_toDynamic_def [bistro_defs]


section \<open>The parser keeps the invariant\<close>

lemma sorted_wrt_less_snoc:
  fixes xs :: "int list"
  shows "sorted_wrt (<) (xs @ [v]) \<longleftrightarrow> sorted_wrt (<) xs \<and> (xs = [] \<or> last xs < v)"
  by (cases xs rule: rev_cases) (auto simp: sorted_wrt_append)

lemma parse_backoff_items_wf:
  "parse_backoff_items items s = Inr t \<Longrightarrow> backoff_wf s \<Longrightarrow> backoff_wf t"
proof (induction items s rule: parse_backoff_items.induct)
  case (2 n items s)
  let ?s = "s\<lparr>backoff_values := backoff_values s @ [i32 n]\<rparr>"
  from "2.prems" have guards: "0 < i32 n"
      "backoff_values s = [] \<or> last (backoff_values s) < i32 n"
    and rest: "parse_backoff_items items ?s = Inr t"
    by (auto simp: Let_def split: if_splits)
  from "2.prems"(2) guards have "backoff_wf ?s"
    using i32_bounds [of n] by (auto simp: backoff_wf_def sorted_wrt_less_snoc)
  with "2.IH" rest guards show ?case by (auto simp: Let_def)
qed (auto simp: backoff_wf_def split: if_splits)

lemma parse_ints:
  assumes "sorted_wrt (<) (backoff_values s @ vs)"
    and "\<forall>v \<in> set vs. 0 < v \<and> v < 2 ^ 31"
  shows "parse_backoff_items (map DInt vs @ rest) s =
           parse_backoff_items rest (s\<lparr>backoff_values := backoff_values s @ vs\<rparr>)"
  using assms
proof (induction vs arbitrary: s)
  case Nil
  then show ?case by simp
next
  case (Cons v vs)
  then have v: "i32 v = v" "0 < v" by auto
  from Cons.prems(1) have
    last: "backoff_values s = [] \<or> last (backoff_values s) < v"
    by (cases "backoff_values s" rule: rev_cases) (auto simp: sorted_wrt_append)
  with v have "parse_backoff_items (map DInt (v # vs) @ rest) s =
      parse_backoff_items (map DInt vs @ rest)
        (s\<lparr>backoff_values := backoff_values s @ [v]\<rparr>)"
    by (auto simp: Let_def)
  with Cons.IH [of "s\<lparr>backoff_values := backoff_values s @ [v]\<rparr>"] Cons.prems
  show ?case by simp
qed

lemma makeJobBackoffSettings_backoff_wf:
  assumes "makeJobBackoffSettings d = Inr s"
  shows "backoff_wf s"
proof -
  have "backoff_wf \<lparr>backoff_values = [], backoff_repeat = False\<rparr>"
    by (simp add: backoff_wf_def)
  with assms show ?thesis
    by (auto simp: makeJobBackoffSettings_def split: dynamic.splits if_splits
        intro: parse_backoff_items_wf)
qed

lemma defaultJobBackoffSettings_eq:
  "defaultJobBackoffSettings =
     Inr \<lparr>backoff_values = [15, 30, 60, 300, 900, 3600, 7200, 21600, 86400],
          backoff_repeat = True\<rparr>"
  by (simp add: defaultJobBackoffSettings_def makeJobBackoffSettings_def Let_def)


section \<open>The next delay\<close>

lemma getNext_no_abort:
  "getNext s cur \<noteq> None \<longleftrightarrow> \<not> noMoreBackoffs cur"
  by (simp add: getNext_def)

lemma backoff_wf_sorted: "backoff_wf s \<Longrightarrow> sorted (backoff_values s)"
  by (auto simp: backoff_wf_def dest: strict_sorted_imp_sorted)

text \<open>The three outcomes of \<open>getNext\<close>.\<close>

lemma getNext_step:
  assumes "backoff_wf s" and "getNext s cur = Some next"
    and "v \<in> set (backoff_values s)" and "seconds cur < v"
  shows "\<not> noMoreBackoffs next" and "seconds cur < seconds next" and "seconds next \<le> v"
    and "seconds next \<in> set (backoff_values s)"
proof -
  from assms(3,4) have "upper_bound (backoff_values s) (seconds cur) \<noteq> []"
    using linorder_not_less by (fastforce simp: upper_bound_Nil)
  then obtain y ys where ub: "upper_bound (backoff_values s) (seconds cur) = y # ys"
    by (cases "upper_bound (backoff_values s) (seconds cur)") auto
  with assms(2) have next_eq: "next = \<lparr>noMoreBackoffs = False, seconds = y\<rparr>"
    by (auto simp: getNext_def split: if_splits)
  note facts = upper_bound_hd [OF backoff_wf_sorted [OF assms(1)] ub]
  show "\<not> noMoreBackoffs next" and "seconds cur < seconds next" and "seconds next \<le> v"
    and "seconds next \<in> set (backoff_values s)"
    using facts assms(3,4) by (auto simp: next_eq)
qed

lemma getNext_exhausted:
  assumes "\<forall>v \<in> set (backoff_values s). v \<le> seconds cur" and "\<not> noMoreBackoffs cur"
  shows "getNext s cur = Some
    (if backoff_repeat s
     then \<lparr>noMoreBackoffs = False, seconds = last (backoff_values s)\<rparr>
     else \<lparr>noMoreBackoffs = True, seconds = 60\<rparr>)"
  using assms by (simp add: getNext_def upper_bound_Nil [THEN iffD2])

text \<open>The first delay after a given position of the list is the next position.\<close>

lemma upper_bound_nth:
  fixes xs :: "int list"
  assumes "sorted_wrt (<) xs" and "k < length xs" and "v < xs ! k"
    and "k = 0 \<or> xs ! (k - 1) \<le> v"
  shows "upper_bound xs v = drop k xs"
  using assms
proof (induction xs arbitrary: k)
  case Nil
  then show ?case by simp
next
  case (Cons x xs)
  show ?case
  proof (cases k)
    case 0
    with Cons.prems show ?thesis by simp
  next
    case (Suc j)
    with Cons.prems have prev: "(x # xs) ! j \<le> v" and "j < length (x # xs)" by auto
    with Cons.prems(1) have "x \<le> (x # xs) ! j"
      by (cases j) (auto simp: less_imp_le)
    with prev have "x \<le> v" by simp
    moreover have "upper_bound xs v = drop j xs"
      using Suc Cons.prems by (intro Cons.IH) (auto simp: nth_Cons' split: if_splits)
    ultimately show ?thesis using Suc by simp
  qed
qed

lemma getNext_nth:
  assumes "backoff_wf s" and "k < length (backoff_values s)"
    and "0 \<le> t" and "t < backoff_values s ! k"
    and "k = 0 \<or> backoff_values s ! (k - 1) \<le> t"
  shows "getNext s \<lparr>noMoreBackoffs = False, seconds = t\<rparr> =
           Some \<lparr>noMoreBackoffs = False, seconds = backoff_values s ! k\<rparr>"
proof -
  from assms have "upper_bound (backoff_values s) t = drop k (backoff_values s)"
    by (intro upper_bound_nth) (auto simp: backoff_wf_def)
  with assms(2) show ?thesis
    by (simp add: getNext_def Cons_nth_drop_Suc [symmetric])
qed


section \<open>The contract of a retry policy\<close>

text \<open>
  What the rest of the system needs of the backoff settings: starting from no
  delay, each request moves to the next entry of a list of delays; after the
  last entry a repeating policy stays there and any other policy reports that
  no backoffs are left.
\<close>

locale retry_policy =
  fixes next_delay :: "'s \<Rightarrow> BackoffDuration \<Rightarrow> BackoffDuration option"
    and delays :: "'s \<Rightarrow> int list"
    and repeats :: "'s \<Rightarrow> bool"
    and inv :: "'s \<Rightarrow> bool"
  assumes first_delay:
      "inv s \<Longrightarrow> delays s \<noteq> [] \<Longrightarrow>
        next_delay s \<lparr>noMoreBackoffs = False, seconds = 0\<rparr> =
          Some \<lparr>noMoreBackoffs = False, seconds = delays s ! 0\<rparr>"
    and advance:
      "inv s \<Longrightarrow> Suc k < length (delays s) \<Longrightarrow>
        next_delay s \<lparr>noMoreBackoffs = False, seconds = delays s ! k\<rparr> =
          Some \<lparr>noMoreBackoffs = False, seconds = delays s ! Suc k\<rparr>"
    and stay:
      "inv s \<Longrightarrow> repeats s \<Longrightarrow>
        next_delay s \<lparr>noMoreBackoffs = False, seconds = last (delays s)\<rparr> =
          Some \<lparr>noMoreBackoffs = False, seconds = last (delays s)\<rparr>"
    and give_up:
      "inv s \<Longrightarrow> \<not> repeats s \<Longrightarrow> delays s \<noteq> [] \<Longrightarrow>
        next_delay s \<lparr>noMoreBackoffs = False, seconds = last (delays s)\<rparr> =
          Some \<lparr>noMoreBackoffs = True, seconds = 60\<rparr>"
    and give_up_at_once:
      "inv s \<Longrightarrow> \<not> repeats s \<Longrightarrow> delays s = [] \<Longrightarrow>
        next_delay s \<lparr>noMoreBackoffs = False, seconds = 0\<rparr> =
          Some \<lparr>noMoreBackoffs = True, seconds = 60\<rparr>"
    and repeats_nonempty: "inv s \<Longrightarrow> repeats s \<Longrightarrow> delays s \<noteq> []"
begin

text \<open>The delay before attempt \<open>n + 1\<close>; attempt \<open>0\<close> has none.\<close>

definition nth_delay :: "'s \<Rightarrow> nat \<Rightarrow> int" where
  "nth_delay s n = (if n = 0 then 0 else delays s ! (min n (length (delays s)) - 1))"

lemma nth_delay_step:
  assumes "inv s" and "n < length (delays s) \<or> repeats s"
  shows "next_delay s \<lparr>noMoreBackoffs = False, seconds = nth_delay s n\<rparr> =
           Some \<lparr>noMoreBackoffs = False, seconds = nth_delay s (Suc n)\<rparr>"
proof -
  have ne: "delays s \<noteq> []" using assms repeats_nonempty by auto
  consider "n = 0" | k where "n = Suc k" "Suc k < length (delays s)"
    | "0 < n" "length (delays s) \<le> n" by (cases n; cases "n < length (delays s)") auto
  then show ?thesis
  proof cases
    case 1
    with assms(1) ne show ?thesis
      by (simp add: nth_delay_def first_delay min_def Suc_leI)
  next
    case 2
    with assms(1) show ?thesis
      by (simp add: nth_delay_def advance min_def)
  next
    case 3
    with assms ne stay [of s] show ?thesis
      by (simp add: nth_delay_def min_def last_conv_nth)
  qed
qed

lemma nth_delay_give_up:
  assumes "inv s" and "\<not> repeats s" and "n = length (delays s)"
  shows "next_delay s \<lparr>noMoreBackoffs = False, seconds = nth_delay s n\<rparr> =
           Some \<lparr>noMoreBackoffs = True, seconds = 60\<rparr>"
  using assms give_up give_up_at_once
  by (cases "delays s = []") (auto simp: nth_delay_def last_conv_nth)

end

interpretation settings: retry_policy getNext backoff_values backoff_repeat backoff_wf
proof unfold_locales
  fix s :: JobBackoffSettings
  assume wf: "backoff_wf s"
  show "backoff_repeat s \<Longrightarrow> backoff_values s \<noteq> []"
    using wf by (simp add: backoff_wf_def)
  show "backoff_values s \<noteq> [] \<Longrightarrow>
      getNext s \<lparr>noMoreBackoffs = False, seconds = 0\<rparr> =
        Some \<lparr>noMoreBackoffs = False, seconds = backoff_values s ! 0\<rparr>"
    using wf by (intro getNext_nth) (auto simp: backoff_wf_def)
  show "\<not> backoff_repeat s \<Longrightarrow> backoff_values s = [] \<Longrightarrow>
      getNext s \<lparr>noMoreBackoffs = False, seconds = 0\<rparr> =
        Some \<lparr>noMoreBackoffs = True, seconds = 60\<rparr>"
    by (simp add: getNext_exhausted)
  have last_max: "v \<le> last (backoff_values s)" if "v \<in> set (backoff_values s)" for v
    using that backoff_wf_sorted [OF wf]
    by (metis in_set_conv_nth last_conv_nth length_pos_if_in_set list.size(3)
        less_numeral_extra(3) One_nat_def Suc_pred diff_less lessI less_Suc_eq_le
        sorted_nth_mono)
  then show "backoff_repeat s \<Longrightarrow>
      getNext s \<lparr>noMoreBackoffs = False, seconds = last (backoff_values s)\<rparr> =
        Some \<lparr>noMoreBackoffs = False, seconds = last (backoff_values s)\<rparr>"
    by (simp add: getNext_exhausted)
  from last_max show "\<not> backoff_repeat s \<Longrightarrow> backoff_values s \<noteq> [] \<Longrightarrow>
      getNext s \<lparr>noMoreBackoffs = False, seconds = last (backoff_values s)\<rparr> =
        Some \<lparr>noMoreBackoffs = True, seconds = 60\<rparr>"
    by (simp add: getNext_exhausted)
next
  fix s :: JobBackoffSettings and k
  assume wf: "backoff_wf s" and k: "Suc k < length (backoff_values s)"
  then have "0 < backoff_values s ! k" "backoff_values s ! k < backoff_values s ! Suc k"
    by (auto simp: backoff_wf_def sorted_wrt_iff_nth_less)
  with wf k show "getNext s \<lparr>noMoreBackoffs = False, seconds = backoff_values s ! k\<rparr> =
      Some \<lparr>noMoreBackoffs = False, seconds = backoff_values s ! Suc k\<rparr>"
    by (intro getNext_nth) auto
qed


section \<open>Properties\<close>

text \<open>C26: every settings object the constructor accepts has positive, strictly
  increasing 32-bit delays, and a delay to repeat if it repeats.\<close>

theorem makeJobBackoffSettings_wf:
  "makeJobBackoffSettings d = Inr s \<Longrightarrow> backoff_wf s"
  by (rule makeJobBackoffSettings_backoff_wf)

theorem makeJobBackoffSettings_wf_witness:
  "backoff_wf \<lparr>backoff_values = [15, 60], backoff_repeat = True\<rparr>"
  by (rule makeJobBackoffSettings_wf [of "DArray [DInt 15, DInt 60, DString ''repeat'']"])
    (simp add: makeJobBackoffSettings_def Let_def)

text \<open>C25: printing a settings object and parsing the result gives the object
  back, for every object that satisfies the invariant, \<^verbatim>\<open>["fail"]\<close> included.\<close>

theorem backoff_roundtrip:
  assumes "backoff_wf s"
  shows "makeJobBackoffSettings (backoff_toDynamic s) = Inr s"
proof -
  let ?init = "\<lparr>backoff_values = [], backoff_repeat = False\<rparr> :: JobBackoffSettings"
  let ?last = "DString (if backoff_repeat s then ''repeat'' else ''fail'')"
  from assms have "parse_backoff_items (map DInt (backoff_values s) @ [?last]) ?init =
      parse_backoff_items [?last] (?init\<lparr>backoff_values := backoff_values s\<rparr>)"
    using parse_ints [of ?init "backoff_values s" "[?last]"]
    by (simp add: backoff_wf_def)
  also have "\<dots> = Inr s"
    using assms by (cases s) (auto simp: backoff_wf_def)
  finally show ?thesis
    by (simp add: makeJobBackoffSettings_def backoff_toDynamic_def)
qed

theorem backoff_roundtrip_witness:
  "makeJobBackoffSettings (backoff_toDynamic
     \<lparr>backoff_values = [5, 8], backoff_repeat = False\<rparr>) =
   Inr \<lparr>backoff_values = [5, 8], backoff_repeat = False\<rparr>"
  by (rule backoff_roundtrip) (simp add: backoff_wf_def)

end
