(* ===== verification/Task_Status.thy ===== *)
theory Task_Status
  imports Backoff
begin

unbundle bit_operations_syntax

text \<open>
  \<^verbatim>\<open>statuses/TaskStatus\<close>: the status bits of a task, the factory methods, the
  parser for the statuses that tasks report, and the in-place update that
  applies the backoff policy.  The current time, which the sources read with
  \<^verbatim>\<open>time(nullptr)\<close>, is an argument of the factories.
\<close>

section \<open>Status bits\<close>

definition Empty :: u16 where "Empty = 0"
definition Unstarted :: u16 where "Unstarted = 1"
definition Running :: u16 where "Running = 2"
definition Done :: u16 where "Done = 4"
definition Incomplete :: u16 where "Incomplete = 8"
definition Failed :: u16 where "Failed = 16"
definition Error :: u16 where "Error = 32"
definition ExactlyOne :: u16 where
  "ExactlyOne = Unstarted OR Running OR Done OR Incomplete OR Failed OR Error"
definition UsesBackoff :: u16 where "UsesBackoff = 64"
definition DoesNotAdvanceBackoff :: u16 where "DoesNotAdvanceBackoff = 512"
definition Overwriteable :: u16 where "Overwriteable = 1024"
definition HasSavedBackoff :: u16 where "HasSavedBackoff = 2048"
definition Avoided :: u16 where "Avoided = 128"
definition Disabled :: u16 where "Disabled = 256"

definition allSet :: "u16 \<Rightarrow> u16 \<Rightarrow> bool" where
  "allSet where_bits which_bits \<longleftrightarrow> where_bits AND which_bits = which_bits"

definition replaceBit :: "u16 \<Rightarrow> u16 \<Rightarrow> u16 \<Rightarrow> u16" where
  "replaceBit where_bits what with_bits = with_bits OR (where_bits AND NOT what)"

lemmas TaskStatusBits_defs =
  Empty_def Unstarted_def Running_def Done_def Incomplete_def Failed_def Error_def
  UsesBackoff_def DoesNotAdvanceBackoff_def Overwriteable_def HasSavedBackoff_def
  Avoided_def Disabled_def


section \<open>Statuses and their factories\<close>

record TaskStatus =
  status_data :: "dynamic option"
  timestamp :: int
  backoffDuration :: u32
  bits :: u16

definition mkStatus :: "u16 \<Rightarrow> int \<Rightarrow> TaskStatus" where
  "mkStatus b time =
     \<lparr>status_data = None, timestamp = time, backoffDuration = 0, bits = b\<rparr>"

definition mkStatusData :: "int \<Rightarrow> u16 \<Rightarrow> dynamic option \<Rightarrow> TaskStatus" where
  "mkStatusData now b d = (mkStatus b now)\<lparr>status_data := d\<rparr>"

definition kBistroSavedBackoff :: string where
  "kBistroSavedBackoff = ''__bistro_saved_backoff''"

definition status_running :: "int \<Rightarrow> TaskStatus" where
  "status_running now = mkStatus Running now"

definition status_running_data :: "int \<Rightarrow> dynamic option \<Rightarrow> TaskStatus" where
  "status_running_data now d = mkStatusData now Running d"

definition status_done :: "int \<Rightarrow> TaskStatus" where
  "status_done now = mkStatus Done now"

definition status_done_at :: "int \<Rightarrow> TaskStatus" where
  "status_done_at time = mkStatus Done time"

definition status_done_data :: "int \<Rightarrow> dynamic option \<Rightarrow> TaskStatus" where
  "status_done_data now d = mkStatusData now Done d"

definition status_failed :: "int \<Rightarrow> TaskStatus" where
  "status_failed now = mkStatus Failed now"

definition status_failed_data :: "int \<Rightarrow> dynamic option \<Rightarrow> TaskStatus" where
  "status_failed_data now d = mkStatusData now Failed d"

definition status_incomplete :: "int \<Rightarrow> dynamic option \<Rightarrow> TaskStatus" where
  "status_incomplete now d = mkStatusData now Incomplete d"

definition wasNotRunning :: "int \<Rightarrow> TaskStatus" where
  "wasNotRunning now = mkStatus (Error OR Overwriteable) now"

definition incompleteBackoff :: "int \<Rightarrow> dynamic option \<Rightarrow> TaskStatus" where
  "incompleteBackoff now d =
     mkStatusData now (Incomplete OR UsesBackoff OR DoesNotAdvanceBackoff) d"

definition errorBackoff :: "int \<Rightarrow> dynamic option \<Rightarrow> TaskStatus" where
  "errorBackoff now d = mkStatusData now (Error OR UsesBackoff) d"

definition workerLost :: "int \<Rightarrow> string \<Rightarrow> u32 \<Rightarrow> TaskStatus" where
  "workerLost now shard saved_backoff =
     mkStatusData now (Error OR UsesBackoff OR HasSavedBackoff OR Overwriteable)
       (Some (DObject
         [(''worker_shard'', DString shard),
          (''exception'', DString ''Remote worker lost (crashed? network down?)''),
          (kBistroSavedBackoff, DInt (uint saved_backoff))]))"

definition errorBackoff_msg :: "int \<Rightarrow> string \<Rightarrow> TaskStatus" where
  "errorBackoff_msg now msg = errorBackoff now (Some (DObject [(''exception'', DString msg)]))"

definition neverStarted :: "int \<Rightarrow> string \<Rightarrow> TaskStatus" where
  "neverStarted now msg =
     mkStatusData now Error (Some (DObject [(''exception'', DString msg)]))"

definition markOverwriteable :: "TaskStatus \<Rightarrow> TaskStatus" where
  "markOverwriteable st = st\<lparr>bits := bits st OR Overwriteable\<rparr>"


section \<open>Accessors\<close>

definition isEmpty :: "TaskStatus \<Rightarrow> bool" where
  "isEmpty st \<longleftrightarrow> bits st = Empty"

definition isRunning :: "TaskStatus \<Rightarrow> bool" where
  "isRunning st \<longleftrightarrow> allSet (bits st) Running"

definition isDone :: "TaskStatus \<Rightarrow> bool" where
  "isDone st \<longleftrightarrow> allSet (bits st) Done"

definition isFailed :: "TaskStatus \<Rightarrow> bool" where
  "isFailed st \<longleftrightarrow> allSet (bits st) Failed"

definition usesBackoff :: "TaskStatus \<Rightarrow> bool" where
  "usesBackoff st \<longleftrightarrow> allSet (bits st) UsesBackoff"

definition hasSavedBackoff :: "TaskStatus \<Rightarrow> bool" where
  "hasSavedBackoff st \<longleftrightarrow> allSet (bits st) HasSavedBackoff"

definition isOverwriteable :: "TaskStatus \<Rightarrow> bool" where
  "isOverwriteable st \<longleftrightarrow> allSet (bits st) Overwriteable"

definition isInBackoff :: "TaskStatus \<Rightarrow> int \<Rightarrow> bool" where
  "isInBackoff st cur_time \<longleftrightarrow>
     usesBackoff st \<and> timestamp st + uint (backoffDuration st) > cur_time"

text \<open>
  \<^verbatim>\<open>data_->at(kBistroSavedBackoff).getInt()\<close>; \<open>None\<close> where this dereferences a
  null pointer or throws.
\<close>

definition savedBackoff :: "TaskStatus \<Rightarrow> int option" where
  "savedBackoff st =
     (case status_data st of
        Some (DObject kvs) \<Rightarrow>
          (case map_of kvs kBistroSavedBackoff of Some (DInt n) \<Rightarrow> Some n | _ \<Rightarrow> None)
      | _ \<Rightarrow> None)"

definition configuredBackoffDuration :: "TaskStatus \<Rightarrow> BackoffDuration option" where
  "configuredBackoffDuration st =
     (if isFailed st then Some \<lparr>noMoreBackoffs = True, seconds = 0\<rparr>
      else if hasSavedBackoff st then
        (case savedBackoff st of
           None \<Rightarrow> None
         | Some n \<Rightarrow> Some \<lparr>noMoreBackoffs = False, seconds = i32 n\<rparr>)
      else Some \<lparr>noMoreBackoffs = False, seconds = i32 (uint (backoffDuration st))\<rparr>)"


section \<open>Parsing a reported status\<close>

text \<open>
  \<^verbatim>\<open>dynamic::empty\<close> is defined on null, strings, arrays and objects.  The parser
  below reaches it with objects only: on any other data the removal of the saved
  backoff, which comes first, has thrown.
\<close>

definition makeDataPtr :: "dynamic option \<Rightarrow> dynamic option" where
  "makeDataPtr d = (case d of None \<Rightarrow> None | Some v \<Rightarrow> if dyn_empty v then None else d)"

definition fromSimpleLabel :: "int \<Rightarrow> string \<Rightarrow> dynamic option \<Rightarrow> TaskStatus option" where
  "fromSimpleLabel now label d =
     (if label = ''done'' then Some (status_done_data now (makeDataPtr d))
      else if label = ''incomplete'' then Some (status_incomplete now (makeDataPtr d))
      else if label = ''incomplete_backoff'' then Some (incompleteBackoff now (makeDataPtr d))
      else if label = ''backoff'' \<or> label = ''error_backoff''
        then Some (errorBackoff now (makeDataPtr d))
      else if label = ''failed'' then Some (status_failed_data now (makeDataPtr d))
      else None)"

definition bitsToInt :: "u16 \<Rightarrow> u64" where
  "bitsToInt b = ucast b"

text \<open>The left summand of the result is the text of the exception.\<close>

definition checkBits :: "folly \<Rightarrow> u64 \<Rightarrow> string + u16" where
  "checkBits F b =
     (if b AND (bitsToInt Unstarted OR bitsToInt Avoided OR bitsToInt Disabled OR
                bitsToInt HasSavedBackoff) \<noteq> 0
      then Inl ''Don't report Unstarted, Avoided, Disabled, or HasSavedBackoff bits''
      else
        (let exactly_one = b AND bitsToInt ExactlyOne in
         if exactly_one = 0 \<or> exactly_one AND (exactly_one - 1) \<noteq> 0
         then Inl ''Set exactly one required bit (Running, Done, ...)''
         else
           (let remaining = fold (\<lambda>bt r. r AND NOT (bitsToInt bt))
                  [Running, Done, Incomplete, Failed, Error, UsesBackoff,
                   DoesNotAdvanceBackoff, Overwriteable] b in
            if remaining \<noteq> 0
            then Inl (''Encountered unknown bit(s): '' @ to_string F (sint remaining))
            else Inr (ucast b))))"

text \<open>
  The \<^verbatim>\<open>try\<close> block of \<^verbatim>\<open>fromString\<close>, in two steps: first the private saved
  backoff is erased from the reported data, then the result keys are read.
\<close>

definition eraseSavedBackoff :: "folly \<Rightarrow> dynamic \<Rightarrow> string + dynamic" where
  "eraseSavedBackoff F d =
     bindR (dyn_get_ptr F d ''data'') (\<lambda>data.
       case data of
         None \<Rightarrow> Inr d
       | Some dat \<Rightarrow>
           bindR (dyn_erase F dat kBistroSavedBackoff) (\<lambda>dat'.
           Inr (dyn_set d ''data'' dat')))"

definition fromResultKeys :: "folly \<Rightarrow> int \<Rightarrow> dynamic \<Rightarrow> string + TaskStatus" where
  "fromResultKeys F now d =
     bindR (dyn_get_ptr F d ''result_bits'') (\<lambda>bits_ptr.
     case bits_ptr of
       Some b \<Rightarrow>
         bindR (asInt F b) (\<lambda>n.
         bindR (checkBits F (word_of_int n)) (\<lambda>bs.
         bindR (dyn_erase F d ''result_bits'') (\<lambda>d'.
         bindR (dyn_get_ptr F d' ''data'') (\<lambda>dp.
         Inr (mkStatusData now bs (makeDataPtr dp))))))
     | None \<Rightarrow>
         bindR (dyn_get_ptr F d ''result'') (\<lambda>result_ptr.
         bindR (case result_ptr of
                  None \<Rightarrow> Inr None
                | Some r \<Rightarrow>
                    bindR (asString F r) (\<lambda>result.
                    bindR (dyn_erase F d ''result'') (\<lambda>d'.
                    bindR (dyn_get_ptr F d' ''data'') (\<lambda>dp.
                    Inr (fromSimpleLabel now result dp)))))
           (\<lambda>maybe_status.
         case maybe_status of
           Some st \<Rightarrow> Inr st
         | None \<Rightarrow> Inl ''Need a valid \"result\" or \"result_bits\" key'')))"

definition fromJson :: "folly \<Rightarrow> int \<Rightarrow> string \<Rightarrow> string + TaskStatus" where
  "fromJson F now raw_status =
     bindR (parseJson F raw_status) (\<lambda>d.
     bindR (eraseSavedBackoff F d) (fromResultKeys F now))"

definition fromString :: "folly \<Rightarrow> int \<Rightarrow> string \<Rightarrow> TaskStatus" where
  "fromString F now raw_status =
     (case fromSimpleLabel now raw_status None of
        Some st \<Rightarrow> st
      | None \<Rightarrow>
          (case fromJson F now raw_status of
             Inr st \<Rightarrow> st
           | Inl err \<Rightarrow>
               errorBackoff_msg now (''Cannot parse status: '' @ raw_status @ '', '' @ err)))"


section \<open>Updating a stored status\<close>

text \<open>
  \<open>status_update rt old new\<close> is \<^verbatim>\<open>old.update(rt, new)\<close>.  \<open>None\<close> is the end of the
  process: a saved backoff that is not there, or the \<^verbatim>\<open>LOG(FATAL)\<close> on a status
  that runs out of backoffs without being an error.
\<close>

definition status_update :: "RunningTask \<Rightarrow> TaskStatus \<Rightarrow> TaskStatus \<Rightarrow> TaskStatus option" where
  "status_update rt old new_status =
     Option.bind
       (if hasSavedBackoff old then savedBackoff old
        else Some (uint (if backoffDuration old \<noteq> 0 then backoffDuration old
                         else word_of_int (seconds (nextBackoffDuration rt)))))
       (\<lambda>prev_backoff_duration.
        if usesBackoff new_status then
          if allSet (bits new_status) DoesNotAdvanceBackoff then
            Some (new_status\<lparr>backoffDuration := word_of_int prev_backoff_duration\<rparr>)
          else
            let st = new_status\<lparr>backoffDuration :=
                       word_of_int (seconds (nextBackoffDuration rt))\<rparr> in
            if noMoreBackoffs (nextBackoffDuration rt) then
              if allSet (bits st) Error then
                Some (st\<lparr>bits := replaceBit (bits st) Error Failed\<rparr>)
              else None
            else Some st
        else Some new_status)"

text \<open>\<open>None\<close> where \<^verbatim>\<open>data_->at\<close> throws because the saved backoff is missing.\<close>

definition forgive :: "TaskStatus \<Rightarrow> TaskStatus option" where
  "forgive st0 =
     (let st = (if isFailed st0 then st0\<lparr>bits := replaceBit (bits st0) Failed Error\<rparr> else st0) in
      if usesBackoff st then
        if hasSavedBackoff st then
          (case status_data st of
             None \<Rightarrow> Some st
           | Some d \<Rightarrow>
               (case d of
                  DObject kvs \<Rightarrow>
                    if map_of kvs kBistroSavedBackoff = None then None
                    else Some (st\<lparr>status_data :=
                           Some (DObject (AList.update kBistroSavedBackoff (DInt 0) kvs))\<rparr>)
                | _ \<Rightarrow> None))
        else Some (st\<lparr>backoffDuration := 0\<rparr>)
      else Some st)"

definition toDynamicNoTime :: "TaskStatus \<Rightarrow> dynamic" where
  "toDynamicNoTime st =
     (let d = DObject [(''result_bits'', DInt (uint (bits st)))] in
      case status_data st of None \<Rightarrow> d | Some dat \<Rightarrow> dyn_set d ''data'' dat)"

definition toDynamic :: "TaskStatus \<Rightarrow> dynamic" where
  "toDynamic st =
     (let d = dyn_set (toDynamicNoTime st) ''time'' (DInt (timestamp st)) in
      if usesBackoff st \<and> backoffDuration st \<noteq> 0
      then dyn_set d ''backoff_duration'' (DInt (uint (backoffDuration st)))
      else d)"

text \<open>
  Exactly one of the six current-status bits is set; a stored status has such
  bits or none, none of the bits that only the monitor uses, and a saved
  backoff wherever its bit announces one.
\<close>

definition exactly_one_status :: "u16 \<Rightarrow> bool" where
  "exactly_one_status b \<longleftrightarrow> length (filter (bit b) [0, 1, 2, 3, 4, 5]) = 1"

definition status_wf :: "TaskStatus \<Rightarrow> bool" where
  "status_wf st \<longleftrightarrow>
     (isEmpty st \<or> exactly_one_status (bits st)) \<and>
     \<not> allSet (bits st) Unstarted \<and> \<not> allSet (bits st) Avoided \<and>
     \<not> allSet (bits st) Disabled \<and>
     (hasSavedBackoff st \<longrightarrow> savedBackoff st \<noteq> None)"

lemmas status_tests =
  isEmpty_def isRunning_def isDone_def isFailed_def usesBackoff_def hasSavedBackoff_def
  isOverwriteable_def

lemmas status_factories =
  mkStatus_def mkStatusData_def status_running_def status_running_data_def status_done_def
  status_done_at_def status_done_data_def status_failed_def status_failed_data_def
  status_incomplete_def wasNotRunning_def incompleteBackoff_def errorBackoff_def
  workerLost_def errorBackoff_msg_def neverStarted_def


section \<open>Bit lemmas\<close>

lemma bit_flag: "b = 2 ^ k \<Longrightarrow> k < 16 \<Longrightarrow> bit (b :: u16) n \<longleftrightarrow> n = k"
  by (auto simp: bit_exp_iff)

lemma bit_of_flag [status_bits]:
  "bit Unstarted n \<longleftrightarrow> n = 0" "bit Running n \<longleftrightarrow> n = 1" "bit Done n \<longleftrightarrow> n = 2"
  "bit Incomplete n \<longleftrightarrow> n = 3" "bit Failed n \<longleftrightarrow> n = 4" "bit Error n \<longleftrightarrow> n = 5"
  "bit UsesBackoff n \<longleftrightarrow> n = 6" "bit Avoided n \<longleftrightarrow> n = 7" "bit Disabled n \<longleftrightarrow> n = 8"
  "bit DoesNotAdvanceBackoff n \<longleftrightarrow> n = 9" "bit Overwriteable n \<longleftrightarrow> n = 10"
  "bit HasSavedBackoff n \<longleftrightarrow> n = 11"
  by (rule bit_flag; simp add: TaskStatusBits_defs)+

lemma allSet_iff: "allSet b X \<longleftrightarrow> (\<forall>n. bit X n \<longrightarrow> bit b n)"
proof
  assume "allSet b X"
  then show "\<forall>n. bit X n \<longrightarrow> bit b n" by (metis allSet_def bit_and_iff)
next
  assume "\<forall>n. bit X n \<longrightarrow> bit b n"
  then show "allSet b X" by (auto simp: allSet_def bit_and_iff intro!: bit_word_eqI)
qed

lemma allSet_flag [status_bits]:
  "allSet b Running = bit b 1" "allSet b Done = bit b 2" "allSet b Incomplete = bit b 3"
  "allSet b Failed = bit b 4" "allSet b Error = bit b 5" "allSet b UsesBackoff = bit b 6"
  "allSet b DoesNotAdvanceBackoff = bit b 9" "allSet b Overwriteable = bit b 10"
  "allSet b HasSavedBackoff = bit b 11"
  by (auto simp: allSet_iff status_bits)

lemma bit_replaceBit [status_bits]:
  "bit (replaceBit b what w) n \<longleftrightarrow> n < 16 \<and> (bit w n \<or> (bit b n \<and> \<not> bit what n))"
  by (auto simp: replaceBit_def bit_simps dest: bit_imp_le_length)

lemma bit_ExactlyOne [status_bits]: "bit ExactlyOne n \<longleftrightarrow> n < 6"
  by (auto simp: ExactlyOne_def bit_or_iff status_bits)

lemma bit_Empty [status_bits]: "\<not> bit Empty n"
  by (simp add: Empty_def)

lemma allSet_monitor_flag [status_bits]:
  "allSet b Unstarted = bit b 0" "allSet b Avoided = bit b 7" "allSet b Disabled = bit b 8"
  by (auto simp: allSet_iff status_bits)

lemma isEmpty_no_bits: "isEmpty st \<Longrightarrow> \<not> bit (bits st) n"
  by (simp add: isEmpty_def Empty_def)

lemma factories_exactly_one:
  "exactly_one_status Running" "exactly_one_status Done" "exactly_one_status Incomplete"
  "exactly_one_status Failed" "exactly_one_status Error"
  "exactly_one_status (Error OR Overwriteable)"
  "exactly_one_status (Error OR UsesBackoff)"
  "exactly_one_status (Incomplete OR UsesBackoff OR DoesNotAdvanceBackoff)"
  "exactly_one_status (Error OR UsesBackoff OR HasSavedBackoff OR Overwriteable)"
  by (simp_all add: exactly_one_status_def bit_or_iff status_bits)

lemma factories_wf:
  "status_wf (status_running now)" "status_wf (status_running_data now d)"
  "status_wf (status_done now)" "status_wf (status_done_at now)"
  "status_wf (status_done_data now d)" "status_wf (status_failed now)"
  "status_wf (status_failed_data now d)" "status_wf (status_incomplete now d)"
  "status_wf (wasNotRunning now)" "status_wf (incompleteBackoff now d)"
  "status_wf (errorBackoff now d)" "status_wf (errorBackoff_msg now msg)"
  "status_wf (neverStarted now msg)" "status_wf (workerLost now shard saved)"
  by (simp_all add: status_wf_def status_factories factories_exactly_one status_tests
      bit_or_iff status_bits savedBackoff_def kBistroSavedBackoff_def)

lemma replaceBit_exactly_one:
  assumes "exactly_one_status b" and "bit b 5"
  shows "exactly_one_status (replaceBit b Error Failed)"
  using assms by (auto simp: exactly_one_status_def status_bits split: if_splits)

lemma replaceBit_exactly_one':
  assumes "exactly_one_status b" and "bit b 4"
  shows "exactly_one_status (replaceBit b Failed Error)"
  using assms by (auto simp: exactly_one_status_def status_bits split: if_splits)


section \<open>The bits a task may report\<close>

lemma small_one_bit:
  fixes e :: u64
  assumes "e < 64" and "e \<noteq> 0" and "e AND (e - 1) = 0"
  shows "e \<in> {1, 2, 4, 8, 16, 32}"
proof -
  have "unat e AND (unat e - 1) = 0"
    using assms(2,3) by (metis unat_minus_one unsigned_0 unsigned_and_eq)
  moreover have "0 < unat e" "unat e < 64"
    using assms(1,2) by (auto simp: word_less_nat_alt unat_gt_0)
  ultimately obtain k where k: "unat e = 2 ^ k"
    using and_pred_eq_0_power by blast
  with \<open>unat e < 64\<close> have "(2::nat) ^ k < 2 ^ 6" by simp
  then have "k < 6" by (rule power_less_imp_less_exp [rotated]) simp
  then have "k \<in> {0, 1, 2, 3, 4, 5}" by auto
  moreover from k have "e = 2 ^ k" by (metis of_nat_numeral of_nat_power of_nat_unat ucast_id)
  ultimately show ?thesis by auto
qed

lemma bit_bitsToInt [status_bits]: "bit (bitsToInt b) n \<longleftrightarrow> bit b n"
  by (auto simp: bitsToInt_def bit_ucast_iff dest: bit_imp_le_length)


lemma checkBits_bits:
  assumes "checkBits F b = Inr c"
  shows "c = ucast b" and "\<And>n. bit b n \<Longrightarrow> n \<in> {1, 2, 3, 4, 5, 6, 9, 10}"
    and "exactly_one_status c"
proof -
  let ?e = "b AND bitsToInt ExactlyOne"
  let ?rem = "fold (\<lambda>bt r. r AND NOT (bitsToInt bt))
       [Running, Done, Incomplete, Failed, Error, UsesBackoff, DoesNotAdvanceBackoff,
        Overwriteable] b"
  from assms show c: "c = ucast b"
    by (auto simp: checkBits_def Let_def split: if_splits)
  from assms have e: "?e \<noteq> 0" "?e AND (?e - 1) = 0" and rem: "?rem = 0"
    by (auto simp: checkBits_def Let_def split: if_splits)
  show bits: "n \<in> {1, 2, 3, 4, 5, 6, 9, 10}" if "bit b n" for n
  proof -
    from that have "n < 64" using bit_imp_le_length [of b n] by simp
    moreover have "\<not> bit ?rem n" by (subst rem) simp
    ultimately show ?thesis
      using that by (auto simp: bit_and_iff bit_not_iff status_bits)
  qed
  have small: "?e < 64"
  proof -
    have "?e = take_bit 6 ?e"
      by (rule bit_word_eqI) (auto simp: bit_take_bit_iff bit_and_iff status_bits)
    then have "unat ?e = take_bit 6 (unat ?e)"
      by (metis unsigned_take_bit_eq)
    then have "unat ?e < 2 ^ 6" by (metis take_bit_nat_less_exp)
    then show ?thesis by (simp add: word_less_nat_alt)
  qed
  have "ucast ?e \<in> {1 :: u16, 2, 4, 8, 16, 32}"
    using small_one_bit [OF small e] by auto
  then have "exactly_one_status (ucast ?e)"
    by (auto simp: exactly_one_status_def)
  moreover have "filter (bit (ucast ?e :: u16)) [0, 1, 2, 3, 4, 5] =
      filter (bit c) [0, 1, 2, 3, 4, 5]"
    by (rule filter_cong) (auto simp: c bit_ucast_iff bit_and_iff status_bits)
  ultimately show "exactly_one_status c"
    unfolding exactly_one_status_def by metis
qed

text \<open>
  What a parsed status looks like: one current-status bit, none of the bits
  that are unknown or reserved to the monitor or to \<open>TaskStatus\<close> itself, data
  that is absent or an object that is not empty and has no saved backoff, the
  scheduler's own time.
\<close>

definition no_saved :: "dynamic option \<Rightarrow> bool" where
  "no_saved d \<longleftrightarrow>
     (case d of
        None \<Rightarrow> True
      | Some (DObject kvs) \<Rightarrow> map_of kvs kBistroSavedBackoff = None
      | _ \<Rightarrow> False)"

definition reported_wf :: "int \<Rightarrow> TaskStatus \<Rightarrow> bool" where
  "reported_wf now st \<longleftrightarrow>
     exactly_one_status (bits st) \<and>
     list_all (\<lambda>n. \<not> bit (bits st) n) [0, 7, 8, 11, 12, 13, 14, 15] \<and>
     no_saved (status_data st) \<and> makeDataPtr (status_data st) = status_data st \<and>
     timestamp st = now \<and> backoffDuration st = 0"

lemma reported_wf_imp_status_wf: "reported_wf now st \<Longrightarrow> status_wf st"
  by (simp add: reported_wf_def status_wf_def status_tests status_bits)

lemma no_saved_makeDataPtr: "no_saved d \<Longrightarrow> no_saved (makeDataPtr d)"
  by (auto simp: no_saved_def makeDataPtr_def split: option.splits dynamic.splits)

lemma makeDataPtr_idem [simp]: "makeDataPtr (makeDataPtr d) = makeDataPtr d"
  by (auto simp: makeDataPtr_def split: option.splits dynamic.splits)

lemma reported_factories:
  assumes "no_saved d" and "makeDataPtr d = d"
  shows "reported_wf now (status_done_data now d)" "reported_wf now (status_incomplete now d)"
    "reported_wf now (incompleteBackoff now d)" "reported_wf now (errorBackoff now d)"
    "reported_wf now (status_failed_data now d)"
  using assms
  by (simp_all add: reported_wf_def status_factories factories_exactly_one status_bits
      bit_or_iff)

lemma fromSimpleLabel_reported:
  assumes "fromSimpleLabel now label d = Some st" and "no_saved d"
  shows "reported_wf now st"
  using assms(1) reported_factories [OF no_saved_makeDataPtr [OF assms(2)] makeDataPtr_idem]
  unfolding fromSimpleLabel_def by (metis option.distinct(1) option.inject)

lemma checkBits_reported:
  assumes "checkBits F b = Inr c" and "no_saved d"
  shows "reported_wf now (mkStatusData now c (makeDataPtr d))"
proof -
  note bs = checkBits_bits [OF assms(1)]
  have "list_all (\<lambda>n. \<not> bit b n) [0, 7, 8, 11, 12, 13, 14, 15]"
    by (auto dest: bs(2))
  with bs(1,3) assms(2) show ?thesis
    by (simp add: reported_wf_def mkStatusData_def mkStatus_def bit_ucast_iff
        no_saved_makeDataPtr)
qed

text \<open>Conversely, the bits of a parsed status are accepted again.\<close>

lemma exactly_one_AND:
  assumes "exactly_one_status b" and "\<not> bit b 0"
  shows "ucast b AND bitsToInt ExactlyOne \<in> {2 :: u64, 4, 8, 16, 32}"
proof -
  have "\<exists>k. 0 < k \<and> k < 6 \<and> (\<forall>n<6. bit b n \<longleftrightarrow> n = k)"
    using assms
    by (auto simp: exactly_one_status_def less_Suc_eq numeral_eq_Suc split: if_splits)
  then obtain k where k: "0 < k" "k < 6" "\<And>n. n < 6 \<Longrightarrow> bit b n \<longleftrightarrow> n = k" by blast
  have "ucast b AND bitsToInt ExactlyOne = (2 ^ k :: u64)"
  proof (rule bit_word_eqI)
    fix n assume "n < LENGTH(64)"
    with k show "bit (ucast b AND bitsToInt ExactlyOne) n = bit (2 ^ k :: u64) n"
      by (cases "n < 6") (auto simp: bit_and_iff bit_ucast_iff status_bits bit_exp_iff)
  qed
  moreover from k(1,2) have "k \<in> {1, 2, 3, 4, 5}" by auto
  ultimately show ?thesis by auto
qed

lemma checkBits_complete:
  assumes "exactly_one_status b"
    and "list_all (\<lambda>n. \<not> bit b n) [0, 7, 8, 11, 12, 13, 14, 15]"
  shows "checkBits F (ucast b) = Inr b"
proof -
  let ?b = "ucast b :: u64"
  have "n \<in> {1, 2, 3, 4, 5, 6, 9, 10}" if "bit b n" for n
    using assms(2) that bit_imp_le_length [OF that]
    by (auto simp: list_all_iff less_Suc_eq numeral_eq_Suc)
  then have known: "bit ?b n \<Longrightarrow> n \<in> {1, 2, 3, 4, 5, 6, 9, 10}" for n
    by (simp add: bit_ucast_iff)
  have reserved: "?b AND (bitsToInt Unstarted OR bitsToInt Avoided OR bitsToInt Disabled OR
      bitsToInt HasSavedBackoff) = 0"
    by (intro bit_word_eqI) (auto simp: bit_and_iff bit_or_iff status_bits dest: known)
  have remaining: "fold (\<lambda>bt r. r AND NOT (bitsToInt bt))
      [Running, Done, Incomplete, Failed, Error, UsesBackoff, DoesNotAdvanceBackoff,
       Overwriteable] ?b = 0"
    by (intro bit_word_eqI) (auto simp: bit_and_iff bit_not_iff status_bits dest: known)
  have ucast_ucast: "(ucast ?b :: u16) = b"
    by (rule bit_word_eqI) (simp add: bit_ucast_iff)
  have "\<not> bit b 0" using assms(2) by simp
  then have "?b AND bitsToInt ExactlyOne \<in> {2, 4, 8, 16, 32}"
    by (rule exactly_one_AND [OF assms(1)])
  then have one: "\<not> (?b AND bitsToInt ExactlyOne = 0 \<or>
      (?b AND bitsToInt ExactlyOne) AND ((?b AND bitsToInt ExactlyOne) - 1) \<noteq> 0)"
    by auto
  show ?thesis
    unfolding checkBits_def Let_def
    by (simp only: reserved remaining one if_False simp_thms)
      (simp add: ucast_ucast)
qed

lemma dyn_get_ptr_Inr: "dyn_get_ptr F d k = Inr p \<longleftrightarrow> (\<exists>kvs. d = DObject kvs \<and> p = map_of kvs k)"
  by (auto simp: dyn_get_ptr_def split: dynamic.splits)

lemma dyn_erase_Inr:
  "dyn_erase F d k = Inr d' \<longleftrightarrow> (\<exists>kvs. d = DObject kvs \<and> d' = DObject (AList.delete k kvs))"
  by (auto simp: dyn_erase_def split: dynamic.splits)

lemma eraseSavedBackoff_no_saved:
  assumes "eraseSavedBackoff F d0 = Inr d"
  obtains kvs where "d = DObject kvs" and "no_saved (map_of kvs ''data'')"
proof -
  from assms obtain kvs0 where "d0 = DObject kvs0"
    by (auto simp: eraseSavedBackoff_def bindR_eq_Inr dyn_get_ptr_Inr)
  with assms that show thesis
    by (cases "map_of kvs0 ''data''")
      (auto simp: eraseSavedBackoff_def dyn_get_ptr_def bindR_eq_Inr dyn_erase_Inr
        no_saved_def update_conv delete_conv)
qed

lemma fromResultKeys_reported:
  assumes "fromResultKeys F now (DObject kvs) = Inr st" and "no_saved (map_of kvs ''data'')"
  shows "reported_wf now st"
  using assms
  by (auto simp: fromResultKeys_def bindR_eq_Inr dyn_erase_def dyn_get_ptr_def delete_conv
      intro: checkBits_reported fromSimpleLabel_reported split: option.splits)

lemma fromString_reported: "reported_wf now (fromString F now raw)"
proof -
  have "reported_wf now (errorBackoff_msg now msg)" for msg
    by (simp add: reported_wf_def status_factories factories_exactly_one makeDataPtr_def
        status_bits bit_or_iff no_saved_def kBistroSavedBackoff_def)
  moreover have "reported_wf now st" if "fromSimpleLabel now raw None = Some st" for st
    using that by (rule fromSimpleLabel_reported) (simp add: no_saved_def)
  moreover have "reported_wf now st" if "fromJson F now raw = Inr st" for st
    using that by (auto simp: fromJson_def bindR_eq_Inr elim!: eraseSavedBackoff_no_saved
        intro: fromResultKeys_reported)
  ultimately show ?thesis
    by (auto simp: fromString_def split: option.splits sum.splits)
qed


section \<open>Updates\<close>

lemma status_wf_saved: "status_wf st \<Longrightarrow> hasSavedBackoff st \<Longrightarrow> savedBackoff st \<noteq> None"
  by (simp add: status_wf_def)

text \<open>The four outcomes of an update that does not abort.\<close>

lemma status_update_cases:
  assumes "status_update rt old new = Some st"
  obtains (plain) "\<not> usesBackoff new" "st = new"
    | (keep) w where "usesBackoff new" "allSet (bits new) DoesNotAdvanceBackoff"
        "st = new\<lparr>backoffDuration := w\<rparr>"
    | (advance) "usesBackoff new" "\<not> allSet (bits new) DoesNotAdvanceBackoff"
        "\<not> noMoreBackoffs (nextBackoffDuration rt)"
        "st = new\<lparr>backoffDuration := word_of_int (seconds (nextBackoffDuration rt))\<rparr>"
    | (fail) "usesBackoff new" "\<not> allSet (bits new) DoesNotAdvanceBackoff"
        "noMoreBackoffs (nextBackoffDuration rt)" "allSet (bits new) Error"
        "st = new\<lparr>backoffDuration := word_of_int (seconds (nextBackoffDuration rt)),
                  bits := replaceBit (bits new) Error Failed\<rparr>"
proof (cases "usesBackoff new")
  case False
  with assms have "st = new" by (auto simp: status_update_def bind_eq_Some_conv)
  with False show ?thesis by (rule plain)
next
  case uses: True
  show ?thesis
  proof (cases "allSet (bits new) DoesNotAdvanceBackoff")
    case True
    with uses assms obtain w where "st = new\<lparr>backoffDuration := w\<rparr>"
      by (auto simp: status_update_def bind_eq_Some_conv)
    with uses True show ?thesis by (rule keep)
  next
    case False
    with uses assms have "if noMoreBackoffs (nextBackoffDuration rt)
        then allSet (bits new) Error \<and>
          st = new\<lparr>backoffDuration := word_of_int (seconds (nextBackoffDuration rt)),
                   bits := replaceBit (bits new) Error Failed\<rparr>
        else st = new\<lparr>backoffDuration := word_of_int (seconds (nextBackoffDuration rt))\<rparr>"
      by (simp add: status_update_def Let_def bind_eq_Some_conv split: if_splits)
    with uses False advance fail show ?thesis by presburger
  qed
qed

lemma status_update_None:
  assumes "status_wf old"
  shows "status_update rt old new = None \<longleftrightarrow>
    usesBackoff new \<and> \<not> allSet (bits new) DoesNotAdvanceBackoff \<and>
    noMoreBackoffs (nextBackoffDuration rt) \<and> \<not> allSet (bits new) Error"
  using status_wf_saved [OF assms]
  by (auto simp: status_update_def Let_def bind_eq_None_conv)

lemma status_wf_backoffDuration [simp]: "status_wf (st\<lparr>backoffDuration := d\<rparr>) = status_wf st"
  by (simp add: status_wf_def status_tests savedBackoff_def)

lemma savedBackoff_bits [simp]:
  "savedBackoff (st\<lparr>bits := b\<rparr>) = savedBackoff st"
  "savedBackoff (st\<lparr>backoffDuration := d\<rparr>) = savedBackoff st"
  by (simp_all add: savedBackoff_def)

lemma status_wf_fail:
  assumes "status_wf st" and "allSet (bits st) Error"
  shows "status_wf (st\<lparr>bits := replaceBit (bits st) Error Failed\<rparr>)"
  using assms isEmpty_no_bits [of st 5]
  by (auto simp: status_wf_def status_tests status_bits intro: replaceBit_exactly_one)

lemma status_wf_forgive:
  assumes "status_wf st" and "isFailed st"
  shows "status_wf (st\<lparr>bits := replaceBit (bits st) Failed Error\<rparr>)"
  using assms isEmpty_no_bits [of st 4]
  by (auto simp: status_wf_def status_tests status_bits intro: replaceBit_exactly_one')

lemma status_update_status_wf:
  assumes "status_update rt old new = Some st" and "status_wf new"
  shows "status_wf st"
  using assms(1)
proof (cases rule: status_update_cases)
  case fail
  have "st = (new\<lparr>bits := replaceBit (bits new) Error Failed\<rparr>)
      \<lparr>backoffDuration := word_of_int (seconds (nextBackoffDuration rt))\<rparr>"
    using fail by simp
  with fail assms(2) show ?thesis by (simp add: status_wf_fail)
qed (use assms(2) in simp_all)


section \<open>Sending a status from the worker to the scheduler\<close>

text \<open>What the parser makes of an object with the keys that the printer writes.\<close>

lemma fromJson_printed:
  assumes "parseJson F raw = Inr (toDynamicNoTime st)"
    and "asInt F (DInt (uint (bits st))) = Inr (uint (bits st))"
    and "reported_wf t st"
  shows "fromJson F now raw = Inr (st\<lparr>timestamp := now\<rparr>)"
proof -
  from assms(3) have ok: "checkBits F (word_of_int (uint (bits st))) = Inr (bits st)"
    by (simp add: reported_wf_def checkBits_complete flip: ucast_eq)
  from assms(3) have "AList.delete kBistroSavedBackoff kvs = kvs"
    if "status_data st = Some (DObject kvs)" for kvs
    using that by (simp add: reported_wf_def no_saved_def map_of_eq_None_iff delete_idem)
  moreover have "status_data st = None \<or> (\<exists>kvs. status_data st = Some (DObject kvs))"
    using assms(3) by (auto simp: reported_wf_def no_saved_def split: option.splits dynamic.splits)
  moreover have "mkStatusData now (bits st) (makeDataPtr (status_data st)) =
      st\<lparr>timestamp := now\<rparr>"
    using assms(3) by (cases st) (simp add: reported_wf_def mkStatusData_def mkStatus_def)
  ultimately show ?thesis
    using assms(1,2) ok
    by (auto simp: fromJson_def toDynamicNoTime_def eraseSavedBackoff_def dyn_get_ptr_def
        dyn_erase_def fromResultKeys_def)
qed

lemma fromSimpleLabel_object: "hd raw = CHR ''{'' \<Longrightarrow> fromSimpleLabel now raw None = None"
  by (cases raw) (simp_all add: fromSimpleLabel_def)


section \<open>Forgiving\<close>

lemma forgive_total:
  assumes "status_wf st"
  shows "\<exists>st'. forgive st = Some st' \<and> status_wf st'"
proof -
  define s1 where "s1 = (if isFailed st then st\<lparr>bits := replaceBit (bits st) Failed Error\<rparr> else st)"
  with assms have wf: "status_wf s1" by (simp add: status_wf_forgive)
  show ?thesis
  proof (cases "usesBackoff s1 \<and> hasSavedBackoff s1")
    case True
    with status_wf_saved [OF wf] obtain kvs n
      where d: "status_data s1 = Some (DObject kvs)" "map_of kvs kBistroSavedBackoff = Some (DInt n)"
      by (auto simp: savedBackoff_def split: option.splits dynamic.splits)
    let ?s2 = "s1\<lparr>status_data := Some (DObject (AList.update kBistroSavedBackoff (DInt 0) kvs))\<rparr>"
    have "status_wf ?s2"
      using wf by (simp add: status_wf_def status_tests savedBackoff_def update_conv)
    with True d show ?thesis by (simp add: forgive_def s1_def [symmetric])
  next
    case False
    with wf show ?thesis by (auto simp: forgive_def s1_def [symmetric])
  qed
qed

lemma forgive_shape:
  assumes "forgive st = Some st'"
  shows "\<not> isFailed st'" "usesBackoff st' = usesBackoff st" "hasSavedBackoff st' = hasSavedBackoff st"
    "timestamp st' = timestamp st"
    "\<not> hasSavedBackoff st \<Longrightarrow> usesBackoff st \<Longrightarrow> backoffDuration st' = 0"
    "hasSavedBackoff st \<Longrightarrow> backoffDuration st' = backoffDuration st"
    "hasSavedBackoff st \<Longrightarrow> usesBackoff st \<Longrightarrow> status_wf st' \<Longrightarrow> savedBackoff st' = Some 0"
proof -
  define s1 where "s1 = (if isFailed st then st\<lparr>bits := replaceBit (bits st) Failed Error\<rparr> else st)"
  have s1: "\<not> isFailed s1" "usesBackoff s1 = usesBackoff st" "hasSavedBackoff s1 = hasSavedBackoff st"
    "timestamp s1 = timestamp st" "backoffDuration s1 = backoffDuration st"
    by (auto simp: s1_def status_tests status_bits)
  note eq = assms [unfolded forgive_def Let_def, folded s1_def]
  show "\<not> isFailed st'" "usesBackoff st' = usesBackoff st" "hasSavedBackoff st' = hasSavedBackoff st"
    "timestamp st' = timestamp st"
    "\<not> hasSavedBackoff st \<Longrightarrow> usesBackoff st \<Longrightarrow> backoffDuration st' = 0"
    "hasSavedBackoff st \<Longrightarrow> backoffDuration st' = backoffDuration st"
    "hasSavedBackoff st \<Longrightarrow> usesBackoff st \<Longrightarrow> status_wf st' \<Longrightarrow> savedBackoff st' = Some 0"
    using eq s1
    by (auto simp: status_wf_def status_tests savedBackoff_def update_conv
        split: if_splits option.splits dynamic.splits)
qed


section \<open>Properties\<close>

text \<open>C17: whatever text a task reports, \<^verbatim>\<open>fromString\<close> returns (it never throws or
  aborts) a status with exactly one current-status bit, no unknown or reserved
  bits, no saved backoff, the time of the call and no backoff duration.\<close>

theorem fromString_reported_wf: "reported_wf now (fromString F now raw)"
  by (rule fromString_reported)



text \<open>C20: the statuses that can end the process include one a task can report:
  with the result bits of an incomplete status that uses and advances backoff,
  the parser accepts the report and the update of any well-formed status of a
  job without further backoffs aborts.\<close>

theorem reported_status_aborts:
  assumes "parseJson F raw = Inr (DObject [(''result_bits'', DInt 72)])"
    and "asInt F (DInt 72) = Inr 72" and "hd raw = CHR ''{''"
    and "status_wf old" and "noMoreBackoffs (nextBackoffDuration rt)"
  shows "status_update rt old (fromString F now raw) = None"
proof -
  have "(word_of_int 72 :: u64) = ucast (Incomplete OR UsesBackoff)"
    by (simp add: Incomplete_def UsesBackoff_def)
  moreover have "checkBits F (ucast (Incomplete OR UsesBackoff)) = Inr (Incomplete OR UsesBackoff)"
    by (rule checkBits_complete) (simp_all add: exactly_one_status_def bit_or_iff status_bits)
  ultimately have "fromString F now raw = mkStatusData now (Incomplete OR UsesBackoff) None"
    using assms(1,2) fromSimpleLabel_object [OF assms(3), of now]
    by (simp add: fromString_def fromJson_def eraseSavedBackoff_def fromResultKeys_def
        dyn_get_ptr_def dyn_erase_def makeDataPtr_def)
  with assms(4,5) show ?thesis
    by (simp add: status_update_None mkStatusData_def mkStatus_def status_tests status_bits
        bit_or_iff)
qed

text \<open>A \<^verbatim>\<open>folly\<close> whose parser knows a single text, for the examples.\<close>

definition example_folly :: "string \<Rightarrow> dynamic \<Rightarrow> folly" where
  "example_folly raw d =
     \<lparr>parseJson = (\<lambda>s. if s = raw then Inr d else Inl ''parse error''),
      toJson = (\<lambda>_. raw),
      asInt = (\<lambda>v. case v of DInt n \<Rightarrow> Inr n | _ \<Rightarrow> Inl ''not an int''),
      asString = (\<lambda>v. case v of DString s \<Rightarrow> Inr s | _ \<Rightarrow> Inl ''not a string''),
      asDouble = (\<lambda>v. case v of DDouble x \<Rightarrow> Inr x | _ \<Rightarrow> Inl ''not a double''),
      type_error = (\<lambda>_. ''type error''), to_string = (\<lambda>_. ''?'')\<rparr>"

theorem reported_status_aborts_witness:
  "status_update
     \<lparr>rt_job = ''j'', rt_node = ''n'', nodeResources = [], workerShard = ''w'',
      invocationID = \<lparr>startTime = 1, rand = 2\<rparr>,
      nextBackoffDuration = \<lparr>noMoreBackoffs = True, seconds = 60\<rparr>,
      workerSuicideTaskKillWaitMs = 0\<rparr>
     (status_running 5)
     (fromString (example_folly ''{result_bits:72}'' (DObject [(''result_bits'', DInt 72)])) 9
        ''{result_bits:72}'') = None"
  by (rule reported_status_aborts) (simp_all add: example_folly_def factories_wf)

text \<open>C18: a status that was parsed once, on the worker, and is printed and parsed
  again on the scheduler is the same status with the scheduler's time, provided
  that the JSON parser inverts the printer on it.\<close>

theorem status_relay_roundtrip:
  assumes "parseJson F (toJson F (toDynamicNoTime st)) = Inr (toDynamicNoTime st)"
    and "hd (toJson F (toDynamicNoTime st)) = CHR ''{''"
    and "\<And>n. asInt F (DInt n) = Inr n"
    and "st = fromString F t raw"
  shows "fromString F now (toJson F (toDynamicNoTime st)) = st\<lparr>timestamp := now\<rparr>"
  using fromJson_printed [OF assms(1) assms(3) fromString_reported [of t F raw, folded assms(4)]]
    fromSimpleLabel_object [OF assms(2)]
  by (simp add: fromString_def)

theorem status_relay_roundtrip_witness:
  "fromString (example_folly ''{result_bits:4}'' (DObject [(''result_bits'', DInt 4)])) 9
     ''{result_bits:4}'' = status_done 9"
proof -
  let ?F = "example_folly ''{result_bits:4}'' (DObject [(''result_bits'', DInt 4)])"
  have st: "fromString ?F 3 ''done'' = status_done 3"
    by (simp add: fromString_def fromSimpleLabel_def status_factories makeDataPtr_def)
  have "fromString ?F 9 (toJson ?F (toDynamicNoTime (status_done 3))) =
      (status_done 3)\<lparr>timestamp := 9\<rparr>"
    by (rule status_relay_roundtrip [where t = 3 and raw = "''done''"])
      (simp_all add: st, simp_all add: example_folly_def toDynamicNoTime_def status_factories
        Done_def)
  then show ?thesis by (simp add: example_folly_def status_factories)
qed



end
