(* ===== verification/Job_Config.thy ===== *)
theory Job_Config
  imports Node_Tree Task_Status
begin

text \<open>
  \<^verbatim>\<open>config/JobFilters\<close>, \<^verbatim>\<open>config/Job\<close> and \<^verbatim>\<open>config/Config\<close>: which nodes a job
  accepts, the settings of a job and of the whole deployment that the scheduler
  and the runners read, and the parsers of the small option values.  Regular
  expressions and hashes are library code and enter as the record \<open>boost\<close>.
\<close>

section \<open>Library code\<close>

text \<open>
  The error text that compiling a regular expression throws, if any; the search
  for an expression in a text; and the hash of a pair of strings.
\<close>

record boost =
  regex_error :: "string \<Rightarrow> string option"
  regex_search :: "string \<Rightarrow> string \<Rightarrow> bool"
  pair_hash :: "string \<times> string \<Rightarrow> u64"


section \<open>Job filters\<close>

text \<open>
  A default-constructed regular expression is \<open>None\<close>.  Doubles are rational
  numbers.  \<^verbatim>\<open>fractionOfNodes_\<close> and \<^verbatim>\<open>fractionCutoff_\<close> of a default-constructed
  filter are not initialized, and not read, since \<^verbatim>\<open>isEmpty_\<close> is set.
\<close>

record JobFilters =
  whitelist :: "string list"
  whitelistRegex :: "string option"
  blacklist :: "string list"
  blacklistRegex :: "string option"
  tagWhitelist :: "string list"
  fractionOfNodes :: rat
  fractionCutoff :: u64
  filters_isEmpty :: bool
  filter_cb :: "(Node \<Rightarrow> bool) option"

definition emptyJobFilters :: JobFilters where
  "emptyJobFilters =
     \<lparr>whitelist = [], whitelistRegex = None, blacklist = [], blacklistRegex = None,
      tagWhitelist = [], fractionOfNodes = 0, fractionCutoff = 0, filters_isEmpty = True,
      filter_cb = None\<rparr>"

text \<open>
  The product with the largest \<^verbatim>\<open>size_t\<close>, which as a double is \<open>2 ^ 64\<close>, is
  exact; the conversion back is defined for fractions below one.
\<close>

definition setFractionOfNodes :: "rat \<Rightarrow> JobFilters \<Rightarrow> JobFilters" where
  "setFractionOfNodes f0 fs =
     (let f = (if f0 \<le> 0 then 1 else f0) in
      fs\<lparr>fractionOfNodes := f, fractionCutoff := word_of_int \<lfloor>f * 2 ^ 64\<rfloor>\<rparr>)"

definition isNonTriviallyEmpty :: "JobFilters \<Rightarrow> bool" where
  "isNonTriviallyEmpty fs \<longleftrightarrow>
     filter_cb fs = None \<and> whitelist fs = [] \<and> whitelistRegex fs = None \<and>
     blacklist fs = [] \<and> blacklistRegex fs = None \<and> tagWhitelist fs = [] \<and>
     fractionOfNodes fs = 1"

text \<open>The strings of an optional array, and an optional regular expression.\<close>

definition filter_strings :: "folly \<Rightarrow> dynamic \<Rightarrow> string \<Rightarrow> string + string list" where
  "filter_strings F d key =
     bindR (dyn_get_ptr F d key) (\<lambda>v.
     case v of
       None \<Rightarrow> Inr []
     | Some (DArray items) \<Rightarrow>
         foldR (\<lambda>item acc. bindR (asString F item) (\<lambda>s. Inr (acc @ [s]))) items []
     | Some w \<Rightarrow> Inl (type_error F w))"

definition filter_regex :: "folly \<Rightarrow> boost \<Rightarrow> dynamic \<Rightarrow> string \<Rightarrow> string + string option" where
  "filter_regex F B d key =
     bindR (dyn_get_ptr F d key) (\<lambda>v.
     case v of
       None \<Rightarrow> Inr None
     | Some w \<Rightarrow>
         bindR (asString F w) (\<lambda>s.
         case regex_error B s of Some e \<Rightarrow> Inl e | None \<Rightarrow> Inr (Some s)))"

definition mkJobFilters ::
  "folly \<Rightarrow> boost \<Rightarrow> dynamic \<Rightarrow> (Node \<Rightarrow> bool) option \<Rightarrow> string + JobFilters" where
  "mkJobFilters F B d cb =
     bindR (filter_strings F d ''whitelist'') (\<lambda>wl.
     bindR (filter_regex F B d ''whitelist_regex'') (\<lambda>wr.
     bindR (filter_strings F d ''blacklist'') (\<lambda>bl.
     bindR (filter_regex F B d ''blacklist_regex'') (\<lambda>br.
     bindR (filter_strings F d ''tag_whitelist'') (\<lambda>tags.
     bindR (dyn_get_ptr F d ''fraction_of_nodes'') (\<lambda>fp.
     bindR (asDouble F (case fp of None \<Rightarrow> DDouble 1 | Some v \<Rightarrow> v)) (\<lambda>f.
     let fs = setFractionOfNodes f
           \<lparr>whitelist = remdups wl, whitelistRegex = wr, blacklist = remdups bl,
            blacklistRegex = br, tagWhitelist = tags, fractionOfNodes = 0,
            fractionCutoff = 0, filters_isEmpty = False, filter_cb = cb\<rparr> in
     Inr (fs\<lparr>filters_isEmpty := isNonTriviallyEmpty fs\<rparr>))))))))"

text \<open>\<^verbatim>\<open>doesPass\<close> on a string and on a node.\<close>

definition doesPass_string :: "boost \<Rightarrow> JobFilters \<Rightarrow> string \<Rightarrow> string \<Rightarrow> bool" where
  "doesPass_string B fs salt s \<longleftrightarrow>
     filters_isEmpty fs \<or>
     ((whitelist fs = [] \<or> s \<in> set (whitelist fs)) \<and>
      (case whitelistRegex fs of None \<Rightarrow> True | Some r \<Rightarrow> regex_search B s r) \<and>
      (blacklist fs = [] \<or> s \<notin> set (blacklist fs)) \<and>
      (case blacklistRegex fs of None \<Rightarrow> True | Some r \<Rightarrow> \<not> regex_search B s r) \<and>
      (fractionOfNodes fs = 1 \<or> pair_hash B (s, salt) < fractionCutoff fs))"

definition doesPass :: "boost \<Rightarrow> JobFilters \<Rightarrow> string \<Rightarrow> Node \<Rightarrow> bool" where
  "doesPass B fs salt n \<longleftrightarrow>
     doesPass_string B fs salt (node_name n) \<and>
     (tagWhitelist fs = [] \<or> hasTags n (tagWhitelist fs)) \<and>
     (case filter_cb fs of None \<Rightarrow> True | Some cb \<Rightarrow> cb n)"

definition filters_toDynamic :: "JobFilters \<Rightarrow> dynamic" where
  "filters_toDynamic fs =
     (if filters_isEmpty fs then DObject []
      else DObject (
        (if whitelist fs = [] then [] else [(''whitelist'', DArray (map DString (whitelist fs)))]) @
        (case whitelistRegex fs of None \<Rightarrow> [] | Some r \<Rightarrow> [(''whitelist_regex'', DString r)]) @
        (if blacklist fs = [] then [] else [(''blacklist'', DArray (map DString (blacklist fs)))]) @
        (case blacklistRegex fs of None \<Rightarrow> [] | Some r \<Rightarrow> [(''blacklist_regex'', DString r)]) @
        (if tagWhitelist fs = [] then []
         else [(''tag_whitelist'', DArray (map DString (tagWhitelist fs)))]) @
        (if fractionOfNodes fs < 1 then [(''fraction_of_nodes'', DDouble (fractionOfNodes fs))]
         else [])))"


section \<open>Jobs\<close>

record Job =
  job_id :: nat
  job_name :: string
  job_enabled :: bool
  levelForTasks :: nat
  priority :: rat
  job_resources :: "int list"
  job_filters :: "JobFilters list"
  levelForHostPlacement :: int
  hostPlacement :: string
  backoffSettings :: JobBackoffSettings
  dependsOn :: "nat list"
  killOrphanTasksAfter :: "int option"
  command :: "string list"
  job_errors :: dynamic

definition isValid :: "Job \<Rightarrow> bool" where
  "isValid j \<longleftrightarrow> dyn_empty (job_errors j)"

definition canRun :: "Job \<Rightarrow> bool" where
  "canRun j \<longleftrightarrow> job_enabled j \<and> isValid j"

definition requiredHostForTask :: "Job \<Rightarrow> Node \<Rightarrow> string" where
  "requiredHostForTask j node =
     (if hostPlacement j \<noteq> [] then hostPlacement j
      else if levelForHostPlacement j = NotFound then []
      else
        (case find (\<lambda>n. int (node_level n) = levelForHostPlacement j) (traverseUp node) of
           Some n \<Rightarrow> node_name n
         | None \<Rightarrow> []))"

datatype ShouldRun = Yes | NoDisabled | NoAvoided

text \<open>
  The loop of \<^verbatim>\<open>shouldRunOn\<close>.  \<open>None\<close> is an access outside the vector of filters,
  which has one entry per level.
\<close>

fun shouldRunOn_loop :: "boost \<Rightarrow> Job \<Rightarrow> Node list \<Rightarrow> ShouldRun option" where
  "shouldRunOn_loop B j [] = Some Yes"
| "shouldRunOn_loop B j (n # ns) =
     (if \<not> node_enabled n then Some NoDisabled
      else if node_level n \<ge> length (job_filters j) then None
      else if \<not> doesPass B (job_filters j ! node_level n) (job_name j) n then Some NoAvoided
      else shouldRunOn_loop B j ns)"

definition shouldRunOn :: "boost \<Rightarrow> Job \<Rightarrow> Node \<Rightarrow> ShouldRun option" where
  "shouldRunOn B j node = shouldRunOn_loop B j (traverseUp node)"


section \<open>Deployment settings\<close>

datatype NodeOrderType = Original | Lexicographic | Random

definition getNodeOrderType :: "string \<Rightarrow> string + NodeOrderType" where
  "getNodeOrderType s =
     (if s = ''original'' then Inr Original
      else if s = ''lexicographic'' then Inr Lexicographic
      else if s = ''random'' then Inr Random
      else Inl (''Unknown node_order type: '' @ s))"

datatype RemoteWorkerSelectorType = RoundRobin | Busiest

definition getRemoteWorkerSelectorType :: "string \<Rightarrow> string + RemoteWorkerSelectorType" where
  "getRemoteWorkerSelectorType s =
     (if s = ''roundrobin'' then Inr RoundRobin
      else if s = ''busiest'' then Inr Busiest
      else Inl (''Unknown remote_worker_selector type: '' @ s))"

text \<open>
  The fields of \<^verbatim>\<open>Config\<close> that the modelled code reads.  \<open>jobs\<close> is an
  \<^verbatim>\<open>unordered_map\<close>; levels and resource names are interned.
\<close>

record Config =
  config_enabled :: bool
  levels :: "string SymbolTable"
  jobs :: "(string \<times> Job) list"
  schedulerPolicyName :: string
  remoteWorkerSelectorType :: RemoteWorkerSelectorType
  nodeOrderType :: NodeOrderType
  defaultJobResources :: "int list"
  resourceIDToWeight :: "int list"
  resourcesByLevel :: "int list list"
  levelIDToResourceID :: "nat list list"
  resourceNames :: "string SymbolTable"
  exitInitialWaitBeforeTimestamp :: int
  workerResourcesOverride :: "(string \<times> (nat \<times> int) list) list"

text \<open>The lookup that throws on an unknown identifier.\<close>

definition checkedLookup :: "string SymbolTable \<Rightarrow> string \<Rightarrow> string + int" where
  "checkedLookup table key =
     (let i = st_lookup table key in
      if i = NotFound then Inl ''Unknown identifier'' else Inr i)"

text \<open>
  The value of \<^verbatim>\<open>kill_orphan_tasks_after_sec\<close>, in milliseconds: \<open>None\<close> means that
  orphans are not killed.  The product is the exact one; outside the range of
  \<^verbatim>\<open>int\<close> the conversion of a double is undefined in C++.
\<close>

definition parseKillOrphanTasksAfter :: "dynamic \<Rightarrow> string + int option" where
  "parseKillOrphanTasksAfter val =
     (case val of
        DBool b \<Rightarrow> Inr (if b then Some 0 else None)
      | DInt n \<Rightarrow> Inr (if 0 \<le> n then Some (i32 (1000 * n)) else None)
      | DDouble x \<Rightarrow> Inr (if 0 \<le> x then Some (i32 \<lfloor>1000 * x\<rfloor>) else None)
      | _ \<Rightarrow> Inl ''Must be a number or a boolean'')"

definition killOrphanTasksAfterToDynamic :: "int option \<Rightarrow> dynamic" where
  "killOrphanTasksAfterToDynamic v =
     (case v of Some ms \<Rightarrow> DDouble (of_int ms / 1000) | None \<Rightarrow> DBool False)"

lemmas job_config_defs =
  isValid_def canRun_def requiredHostForTask_def shouldRunOn_def doesPass_def
  doesPass_string_def



section \<open>Filters\<close>

text \<open>What the constructor establishes.\<close>

definition filters_wf :: "boost \<Rightarrow> JobFilters \<Rightarrow> bool" where
  "filters_wf B fs \<longleftrightarrow>
     distinct (whitelist fs) \<and> distinct (blacklist fs) \<and> 0 < fractionOfNodes fs \<and>
     fractionCutoff fs = word_of_int \<lfloor>fractionOfNodes fs * 2 ^ 64\<rfloor> \<and>
     (case whitelistRegex fs of None \<Rightarrow> True | Some r \<Rightarrow> regex_error B r = None) \<and>
     (case blacklistRegex fs of None \<Rightarrow> True | Some r \<Rightarrow> regex_error B r = None) \<and>
     filters_isEmpty fs = isNonTriviallyEmpty fs"

lemma filter_regex_compiles:
  "filter_regex F B d key = Inr r \<Longrightarrow>
     (case r of None \<Rightarrow> True | Some x \<Rightarrow> regex_error B x = None)"
  by (auto simp: filter_regex_def bindR_eq_Inr split: option.splits)

lemma mkJobFilters_wf:
  assumes "mkJobFilters F B d cb = Inr fs"
  shows "filters_wf B fs" and "filter_cb fs = cb"
proof -
  from assms obtain wr br where
    r: "filter_regex F B d ''whitelist_regex'' = Inr wr"
      "filter_regex F B d ''blacklist_regex'' = Inr br"
      "whitelistRegex fs = wr" "blacklistRegex fs = br"
    by (auto simp: mkJobFilters_def bindR_eq_Inr Let_def setFractionOfNodes_def)
  moreover from assms have "distinct (whitelist fs)" "distinct (blacklist fs)"
      "0 < fractionOfNodes fs"
      "fractionCutoff fs = word_of_int \<lfloor>fractionOfNodes fs * 2 ^ 64\<rfloor>"
      "filters_isEmpty fs = isNonTriviallyEmpty fs"
    by (auto simp: mkJobFilters_def bindR_eq_Inr Let_def setFractionOfNodes_def
        isNonTriviallyEmpty_def)
  ultimately show "filters_wf B fs"
    by (simp add: filters_wf_def filter_regex_compiles [OF r(1)] filter_regex_compiles [OF r(2)])
  from assms show "filter_cb fs = cb"
    by (auto simp: mkJobFilters_def bindR_eq_Inr Let_def setFractionOfNodes_def)
qed

lemma foldR_asString:
  assumes "\<And>s. asString F (DString s) = Inr s"
  shows "foldR (\<lambda>item acc. bindR (asString F item) (\<lambda>s. Inr (acc @ [s]))) (map DString xs) acc =
    Inr (acc @ xs)"
  by (induction xs arbitrary: acc) (simp_all add: assms)

text \<open>The values the printer writes under each key.\<close>

lemma filters_toDynamic_lookup:
  assumes "\<not> filters_isEmpty fs" and "filters_toDynamic fs = DObject kvs"
  shows "map_of kvs ''whitelist'' =
      (if whitelist fs = [] then None else Some (DArray (map DString (whitelist fs))))"
    "map_of kvs ''whitelist_regex'' = map_option DString (whitelistRegex fs)"
    "map_of kvs ''blacklist'' =
      (if blacklist fs = [] then None else Some (DArray (map DString (blacklist fs))))"
    "map_of kvs ''blacklist_regex'' = map_option DString (blacklistRegex fs)"
    "map_of kvs ''tag_whitelist'' =
      (if tagWhitelist fs = [] then None else Some (DArray (map DString (tagWhitelist fs))))"
    "map_of kvs ''fraction_of_nodes'' =
      (if fractionOfNodes fs < 1 then Some (DDouble (fractionOfNodes fs)) else None)"
  using assms
  by (auto simp: filters_toDynamic_def map_add_def split: option.splits)

lemma filters_reparse:
  assumes "filters_wf B fs" and "filter_cb fs = None" and "fractionOfNodes fs \<le> 1"
    and "\<And>s. asString F (DString s) = Inr s" and "\<And>x. asDouble F (DDouble x) = Inr x"
  shows "mkJobFilters F B (filters_toDynamic fs) None = Inr fs"
proof (cases "filters_isEmpty fs")
  case True
  with assms(1) have "fs = \<lparr>whitelist = [], whitelistRegex = None, blacklist = [],
      blacklistRegex = None, tagWhitelist = [], fractionOfNodes = 1, fractionCutoff = 0,
      filters_isEmpty = True, filter_cb = None\<rparr>"
    by (cases fs) (simp add: filters_wf_def isNonTriviallyEmpty_def)
  then show ?thesis
    using assms(5)
    by (simp add: filters_toDynamic_def mkJobFilters_def filter_strings_def filter_regex_def
        dyn_get_ptr_def setFractionOfNodes_def isNonTriviallyEmpty_def)
next
  case False
  then obtain kvs where kvs: "filters_toDynamic fs = DObject kvs"
    by (simp add: filters_toDynamic_def)
  note look = filters_toDynamic_lookup [OF False kvs]
  have "filter_strings F (DObject kvs) ''whitelist'' = Inr (whitelist fs)"
    "filter_strings F (DObject kvs) ''blacklist'' = Inr (blacklist fs)"
    "filter_strings F (DObject kvs) ''tag_whitelist'' = Inr (tagWhitelist fs)"
    by (simp_all add: filter_strings_def dyn_get_ptr_def look foldR_asString [OF assms(4)])
  moreover have "filter_regex F B (DObject kvs) ''whitelist_regex'' = Inr (whitelistRegex fs)"
    "filter_regex F B (DObject kvs) ''blacklist_regex'' = Inr (blacklistRegex fs)"
    using assms(1,4)
    by (auto simp: filter_regex_def dyn_get_ptr_def look filters_wf_def split: option.splits)
  moreover have "asDouble F (case map_of kvs ''fraction_of_nodes'' of None \<Rightarrow> DDouble 1 | Some v \<Rightarrow> v) =
      Inr (fractionOfNodes fs)"
    using assms(3) by (simp add: look assms(5))
  ultimately have "mkJobFilters F B (filters_toDynamic fs) None =
      (let fs' = setFractionOfNodes (fractionOfNodes fs)
         \<lparr>whitelist = whitelist fs, whitelistRegex = whitelistRegex fs,
          blacklist = blacklist fs, blacklistRegex = blacklistRegex fs,
          tagWhitelist = tagWhitelist fs, fractionOfNodes = 0, fractionCutoff = 0,
          filters_isEmpty = False, filter_cb = None\<rparr> in
       Inr (fs'\<lparr>filters_isEmpty := isNonTriviallyEmpty fs'\<rparr>))"
    using assms(1)
    by (simp add: kvs mkJobFilters_def dyn_get_ptr_def filters_wf_def distinct_remdups_id)
  also have "\<dots> = Inr fs"
    using assms(1,2) False
    by (auto simp: Let_def setFractionOfNodes_def filters_wf_def isNonTriviallyEmpty_def
        intro!: JobFilters.equality)
  finally show ?thesis .
qed

lemma shouldRunOn_loop_Yes:
  assumes "\<forall>n \<in> set ns. node_level n < length (job_filters j)"
  shows "shouldRunOn_loop B j ns = Some Yes \<longleftrightarrow>
    (\<forall>n \<in> set ns. node_enabled n \<and> doesPass B (job_filters j ! node_level n) (job_name j) n)"
  using assms by (induction ns) auto

lemma shouldRunOn_loop_total:
  assumes "\<forall>n \<in> set ns. node_level n < length (job_filters j)"
  shows "shouldRunOn_loop B j ns \<noteq> None"
  using assms by (induction ns) auto


section \<open>Properties\<close>

text \<open>C23: the shortcut flag of a filter is sound: for every filter the constructor
  returns, a node passes exactly when it satisfies each of the configured
  conditions, whatever the flag says.\<close>

theorem doesPass_no_shortcut:
  assumes "mkJobFilters F B d cb = Inr fs"
  shows "doesPass B fs salt n \<longleftrightarrow>
    (whitelist fs = [] \<or> node_name n \<in> set (whitelist fs)) \<and>
    (\<forall>r. whitelistRegex fs = Some r \<longrightarrow> regex_search B (node_name n) r) \<and>
    node_name n \<notin> set (blacklist fs) \<and>
    (\<forall>r. blacklistRegex fs = Some r \<longrightarrow> \<not> regex_search B (node_name n) r) \<and>
    (fractionOfNodes fs = 1 \<or> pair_hash B (node_name n, salt) < fractionCutoff fs) \<and>
    (tagWhitelist fs = [] \<or> (\<exists>t \<in> set (tagWhitelist fs). t \<in> set (node_tags n))) \<and>
    (\<forall>f. cb = Some f \<longrightarrow> f n)"
  using mkJobFilters_wf [OF assms]
  by (cases "filters_isEmpty fs")
    (auto simp: doesPass_def doesPass_string_def filters_wf_def isNonTriviallyEmpty_def
      hasTags_def list_ex_iff split: option.splits)

theorem doesPass_no_shortcut_witness:
  "\<exists>fs B. mkJobFilters (example_folly [] DNull) B
       (DObject [(''blacklist'', DArray [DString ''db1''])]) None = Inr fs \<and>
     \<not> doesPass B fs ''job'' (Node 0 ''db1'' 1 True None [])"
proof -
  let ?B = "\<lparr>regex_error = (\<lambda>_. None), regex_search = (\<lambda>s r. True), pair_hash = (\<lambda>_. 0)\<rparr>"
  let ?fs = "\<lparr>whitelist = [], whitelistRegex = None, blacklist = [''db1''],
      blacklistRegex = None, tagWhitelist = [], fractionOfNodes = 1, fractionCutoff = 0,
      filters_isEmpty = False, filter_cb = None\<rparr>"
  have "mkJobFilters (example_folly [] DNull) ?B
      (DObject [(''blacklist'', DArray [DString ''db1''])]) None = Inr ?fs"
    by (simp add: mkJobFilters_def filter_strings_def filter_regex_def dyn_get_ptr_def
        example_folly_def setFractionOfNodes_def isNonTriviallyEmpty_def)
  with doesPass_no_shortcut [OF this, of "''job''" "Node 0 ''db1'' 1 True None []"]
  show ?thesis by fastforce
qed

text \<open>C24: printing a filter and parsing the result gives the same filter, for every
  filter that was itself parsed, has no callback and a fraction of at most one,
  given that the library reads back the strings and doubles it is handed.\<close>

theorem filters_roundtrip:
  assumes "mkJobFilters F B d None = Inr fs" and "fractionOfNodes fs \<le> 1"
    and "\<And>s. asString F (DString s) = Inr s" and "\<And>x. asDouble F (DDouble x) = Inr x"
  shows "mkJobFilters F B (filters_toDynamic fs) None = Inr fs"
  using filters_reparse [OF mkJobFilters_wf [OF assms(1)] assms(2) assms(3) assms(4)] .

theorem filters_roundtrip_witness:
  "\<exists>fs B. fractionOfNodes fs = 1 / 2 \<and>
     mkJobFilters (example_folly [] DNull) B (filters_toDynamic fs) None = Inr fs"
proof -
  let ?B = "\<lparr>regex_error = (\<lambda>_. None), regex_search = (\<lambda>s r. True), pair_hash = (\<lambda>_. 0)\<rparr>"
  let ?F = "example_folly [] DNull"
  let ?fs = "\<lparr>whitelist = [''db1''], whitelistRegex = None, blacklist = [],
      blacklistRegex = None, tagWhitelist = [], fractionOfNodes = 1 / 2,
      fractionCutoff = 9223372036854775808, filters_isEmpty = False, filter_cb = None\<rparr>"
  have "mkJobFilters ?F ?B
      (DObject [(''whitelist'', DArray [DString ''db1'']), (''fraction_of_nodes'', DDouble (1 / 2))])
      None = Inr ?fs"
    by (simp add: mkJobFilters_def filter_strings_def filter_regex_def dyn_get_ptr_def
        example_folly_def setFractionOfNodes_def isNonTriviallyEmpty_def)
  from filters_roundtrip [OF this] have "mkJobFilters ?F ?B (filters_toDynamic ?fs) None = Inr ?fs"
    by (simp add: example_folly_def)
  then show ?thesis by (intro exI [of _ ?fs] exI [of _ ?B] conjI) simp_all
qed

text \<open>C22: a job with a filter for every level of the node's chain runs on the node
  exactly when the node and all its ancestors are enabled and pass the job's
  filters for their levels.\<close>

theorem shouldRunOn_iff:
  assumes "\<forall>n \<in> set (traverseUp node). node_level n < length (job_filters j)"
  shows "shouldRunOn B j node = Some Yes \<longleftrightarrow>
    (\<forall>n \<in> set (traverseUp node).
       node_enabled n \<and> doesPass B (job_filters j ! node_level n) (job_name j) n)"
  unfolding shouldRunOn_def by (rule shouldRunOn_loop_Yes [OF assms])

theorem shouldRunOn_iff_witness:
  "shouldRunOn \<lparr>regex_error = (\<lambda>_. None), regex_search = (\<lambda>s r. True), pair_hash = (\<lambda>_. 0)\<rparr>
     \<lparr>job_id = 0, job_name = ''j'', job_enabled = True, levelForTasks = 1, priority = 1,
      job_resources = [], job_filters = [emptyJobFilters, emptyJobFilters],
      levelForHostPlacement = NotFound, hostPlacement = [],
      backoffSettings = \<lparr>backoff_values = [], backoff_repeat = False\<rparr>, dependsOn = [],
      killOrphanTasksAfter = None, command = [], job_errors = DObject []\<rparr>
     (Node 1 ''db1'' 1 True (Some (Node 0 ''host'' 0 True None [])) []) = Some Yes"
  by (subst shouldRunOn_iff) (simp_all add: doesPass_def doesPass_string_def emptyJobFilters_def)

end
