(* ===== verification/Task_Status_Snapshot.thy ===== *)
theory Task_Status_Snapshot
  imports Job_Config
begin

text \<open>
  \<^verbatim>\<open>statuses/TaskStatusSnapshot\<close>: the table of all task statuses, one row per
  job and one entry per node, and the map of the running tasks.  The invariant
  is that a status is marked as running exactly for the tasks of that map.
  Identifiers index vectors, so they are natural numbers; where the sources
  would index with the \<^verbatim>\<open>NotFound\<close> of a failed name lookup, which is undefined,
  and where a \<^verbatim>\<open>CHECK\<close> fails, the result is \<open>None\<close>.
\<close>

section \<open>Model\<close>

record StatusRow =
  isLoaded :: bool
  row_statuses :: "TaskStatus list"

record TaskStatusSnapshot =
  rows :: "StatusRow list"
  runningTasks :: "((nat \<times> nat) \<times> RunningTask) list"

text \<open>The two global name tables, \<^verbatim>\<open>Job::JobNameTable\<close> and \<^verbatim>\<open>Node::NodeNameTable\<close>.\<close>

record NameTables =
  jobNameTable :: "string SymbolTable"
  nodeNameTable :: "string SymbolTable"

definition emptyRow :: StatusRow where
  "emptyRow = \<lparr>isLoaded = False, row_statuses = []\<rparr>"

definition emptySnapshot :: TaskStatusSnapshot where
  "emptySnapshot = \<lparr>rows = [], runningTasks = []\<rparr>"

text \<open>
  \<^verbatim>\<open>access\<close> makes room for an entry and returns a reference to it: here the
  snapshot with room, \<open>status_ref\<close> to read the entry and \<open>set_status\<close> to assign
  it.  New entries are empty statuses with the current time.
\<close>

definition grow :: "nat \<Rightarrow> 'a \<Rightarrow> 'a list \<Rightarrow> 'a list" where
  "grow i d xs = (if i \<ge> length xs then xs @ replicate (i + 1 - length xs) d else xs)"

definition access :: "int \<Rightarrow> nat \<Rightarrow> nat \<Rightarrow> TaskStatusSnapshot \<Rightarrow> TaskStatusSnapshot" where
  "access now j n s =
     (let rs = grow j emptyRow (rows s);
          row = rs ! j in
      s\<lparr>rows := rs[j := row\<lparr>row_statuses := grow n (mkStatus Empty now) (row_statuses row)\<rparr>]\<rparr>)"

definition status_ref :: "TaskStatusSnapshot \<Rightarrow> nat \<Rightarrow> nat \<Rightarrow> TaskStatus" where
  "status_ref s j n = row_statuses (rows s ! j) ! n"

definition set_status :: "nat \<Rightarrow> nat \<Rightarrow> TaskStatus \<Rightarrow> TaskStatusSnapshot \<Rightarrow> TaskStatusSnapshot" where
  "set_status j n st s =
     s\<lparr>rows := (rows s)[j := (rows s ! j)\<lparr>row_statuses := (row_statuses (rows s ! j))[n := st]\<rparr>]\<rparr>"

definition updateStatus ::
  "int \<Rightarrow> nat \<Rightarrow> nat \<Rightarrow> RunningTask \<Rightarrow> TaskStatus \<Rightarrow> TaskStatusSnapshot \<Rightarrow>
   (TaskStatusSnapshot \<times> TaskStatus) option" where
  "updateStatus now j n rt st s0 =
     (let s = access now j n s0;
          stored = status_ref s j n;
          it = map_of (runningTasks s) (j, n);
          replace = (\<lambda>s'. map_option (\<lambda>st'. (set_status j n st' s', st'))
                            (status_update rt stored st)) in
      if (case it of Some cur \<Rightarrow> invocationID cur \<noteq> invocationID rt | None \<Rightarrow> False) then None
      else if isRunning st then
        (case it of
           Some _ \<Rightarrow> replace s
         | None \<Rightarrow> replace (s\<lparr>runningTasks := ((j, n), rt) # runningTasks s\<rparr>))
      else
        (case it of
           None \<Rightarrow>
             if isOverwriteable st then
               if isRunning stored then None else Some (s, stored)
             else if isOverwriteable stored then replace s
             else Some (s, stored)
         | Some _ \<Rightarrow> replace (s\<lparr>runningTasks := AList.delete (j, n) (runningTasks s)\<rparr>)))"

text \<open>Identifiers by name: \<open>None\<close> for a name that is not in the table.\<close>

definition id_of :: "string SymbolTable \<Rightarrow> string \<Rightarrow> nat option" where
  "id_of t name = (let i = st_lookup t name in if i = NotFound then None else Some (nat i))"

text \<open>
  \<^verbatim>\<open>updateForConfig\<close>, loop by loop.  First, every running task is marked as
  running and its job is kept among the current ones.
\<close>

definition mark_running ::
  "NameTables \<Rightarrow> int \<Rightarrow> (nat \<times> nat) \<times> RunningTask \<Rightarrow> TaskStatusSnapshot \<times> nat list \<Rightarrow>
   (TaskStatusSnapshot \<times> nat list) option" where
  "mark_running T now id_and_task sc =
     (case (id_of (jobNameTable T) (rt_job (snd id_and_task)),
            id_of (nodeNameTable T) (rt_node (snd id_and_task))) of
        (Some j, Some n) \<Rightarrow>
          Some (set_status j n (status_running now) (access now j n (fst sc)),
                List.insert j (snd sc))
      | _ \<Rightarrow> None)"

text \<open>Then the rows of other jobs are cleared, and room is made for the current ones.\<close>

definition clear_rows :: "nat list \<Rightarrow> TaskStatusSnapshot \<Rightarrow> TaskStatusSnapshot" where
  "clear_rows current_jobs s =
     s\<lparr>rows := map (\<lambda>j. if j \<notin> set current_jobs \<and> row_statuses (rows s ! j) \<noteq> []
                         then emptyRow else rows s ! j) [0..<length (rows s)]\<rparr>"

definition grow_rows :: "nat list \<Rightarrow> TaskStatusSnapshot \<Rightarrow> TaskStatusSnapshot" where
  "grow_rows current_jobs s =
     (if current_jobs = [] then s
      else s\<lparr>rows := grow (Max (set current_jobs)) emptyRow (rows s)\<rparr>)"

text \<open>
  Then the stored results of the jobs that are not loaded are fetched; this is
  the callback, applied to one row (job, node, result, time) of the store.
\<close>

definition TaskResult_DONE :: int where "TaskResult_DONE = 1"
definition TaskResult_FAILED :: int where "TaskResult_FAILED = 2"

definition load_result ::
  "int \<Rightarrow> string \<times> string \<times> int \<times> int \<Rightarrow> NameTables \<times> TaskStatusSnapshot \<Rightarrow>
   (NameTables \<times> TaskStatusSnapshot) option" where
  "load_result now row Ts =
     (case (row, Ts) of ((job, node, r, time), (T, s)) \<Rightarrow>
        (case id_of (jobNameTable T) job of
           None \<Rightarrow> None
         | Some j \<Rightarrow>
             (case st_insert node (nodeNameTable T) of (nt, i) \<Rightarrow>
                let n = nat i; s' = access now j n s in
                Some (T\<lparr>nodeNameTable := nt\<rparr>,
                  if r = TaskResult_DONE then set_status j n (status_done_at time) s'
                  else if r = TaskResult_FAILED then set_status j n (status_failed now) s'
                  else s'))))"

text \<open>Finally all current jobs are marked as loaded.\<close>

definition mark_loaded :: "nat list \<Rightarrow> TaskStatusSnapshot \<Rightarrow> TaskStatusSnapshot" where
  "mark_loaded current_jobs s =
     s\<lparr>rows := map (\<lambda>j. if j \<in> set current_jobs then (rows s ! j)\<lparr>isLoaded := True\<rparr>
                         else rows s ! j) [0..<length (rows s)]\<rparr>"

definition updateForConfig ::
  "int \<Rightarrow> Config \<Rightarrow> (string list \<Rightarrow> (string \<times> string \<times> int \<times> int) list) \<Rightarrow>
   NameTables \<times> TaskStatusSnapshot \<Rightarrow> (NameTables \<times> TaskStatusSnapshot) option" where
  "updateForConfig now config fetchJobTasks Ts =
     (case Ts of (T, s0) \<Rightarrow>
        (case foldO (mark_running T now) (runningTasks s0)
                (s0, fold (\<lambda>p. List.insert (job_id (snd p))) (jobs config) []) of
           None \<Rightarrow> None
         | Some (s1, current_jobs) \<Rightarrow>
             let s2 = grow_rows current_jobs (clear_rows current_jobs s1);
                 unloaded = filter (\<lambda>j. \<not> isLoaded (rows s2 ! j)) current_jobs in
             (case those (map (\<lambda>j. st_name (jobNameTable T) (int j)) unloaded) of
                None \<Rightarrow> None
              | Some job_names \<Rightarrow>
                  map_option (\<lambda>(T', s3). (T', mark_loaded current_jobs s3))
                    (foldO (load_result now) (fetchJobTasks job_names) (T, s2)))))"

definition forgiveJob_rows :: "nat \<Rightarrow> TaskStatusSnapshot \<Rightarrow> TaskStatusSnapshot option" where
  "forgiveJob_rows j s =
     (if j < length (rows s) then
        map_option (\<lambda>sts. s\<lparr>rows := (rows s)[j := (rows s ! j)\<lparr>row_statuses := sts\<rparr>]\<rparr>)
          (those (map forgive (row_statuses (rows s ! j))))
      else Some s)"

definition isJobLoaded :: "nat \<Rightarrow> TaskStatusSnapshot \<Rightarrow> bool" where
  "isJobLoaded j s \<longleftrightarrow> j < length (rows s) \<and> isLoaded (rows s ! j)"

text \<open>
  \<^verbatim>\<open>getPtr\<close> and \<^verbatim>\<open>getRow\<close>.  The outer option is the failure of the \<^verbatim>\<open>CHECK\<close> that the
  job is loaded, the inner one the null pointer.
\<close>

definition row_getPtr :: "StatusRow option \<Rightarrow> nat \<Rightarrow> TaskStatus option" where
  "row_getPtr row n =
     (case row of
        None \<Rightarrow> None
      | Some r \<Rightarrow>
          if n \<ge> length (row_statuses r) then None
          else if isEmpty (row_statuses r ! n) then None
          else Some (row_statuses r ! n))"

definition getRow :: "TaskStatusSnapshot \<Rightarrow> nat \<Rightarrow> StatusRow option option" where
  "getRow s j =
     (if j \<ge> length (rows s) then Some None
      else if \<not> isLoaded (rows s ! j) then None
      else Some (Some (rows s ! j)))"

definition getPtr :: "TaskStatusSnapshot \<Rightarrow> nat \<Rightarrow> nat \<Rightarrow> TaskStatus option option" where
  "getPtr s j n =
     (if j \<ge> length (rows s) then Some None
      else if \<not> isLoaded (rows s ! j) then None
      else if n \<ge> length (row_statuses (rows s ! j)) then Some None
      else if isEmpty (row_statuses (rows s ! j) ! n) then Some None
      else Some (Some (row_statuses (rows s ! j) ! n)))"


section \<open>The snapshot as a function from tasks to statuses\<close>

definition status_at :: "TaskStatusSnapshot \<Rightarrow> nat \<Rightarrow> nat \<Rightarrow> TaskStatus option" where
  "status_at s j n =
     (if j < length (rows s) \<and> n < length (row_statuses (rows s ! j))
      then Some (status_ref s j n) else None)"

text \<open>
  The invariant: every status is well-formed, and a status is running exactly
  for the tasks of \<open>runningTasks\<close>.
\<close>

definition snapshot_wf :: "TaskStatusSnapshot \<Rightarrow> bool" where
  "snapshot_wf s \<longleftrightarrow>
     um_wf (runningTasks s) \<and>
     (\<forall>j n st. status_at s j n = Some st \<longrightarrow> status_wf st) \<and>
     (\<forall>j n. (\<exists>st. status_at s j n = Some st \<and> isRunning st) \<longleftrightarrow>
        map_of (runningTasks s) (j, n) \<noteq> None)"

text \<open>The names of a running task are those its identifiers stand for.\<close>

definition names_ok :: "NameTables \<Rightarrow> TaskStatusSnapshot \<Rightarrow> bool" where
  "names_ok T s \<longleftrightarrow>
     st_wf (jobNameTable T) \<and> st_wf (nodeNameTable T) \<and>
     (\<forall>((j, n), rt) \<in> set (runningTasks s).
        id_of (jobNameTable T) (rt_job rt) = Some j \<and>
        id_of (nodeNameTable T) (rt_node rt) = Some n)"

lemmas snapshot_defs =
  access_def status_ref_def set_status_def emptyRow_def grow_def status_at_def


section \<open>Reading and writing entries\<close>

lemma length_grow [simp]: "length (grow i d xs) = max (length xs) (i + 1)"
  by (auto simp: grow_def)

lemma nth_grow: "k < max (length xs) (i + 1) \<Longrightarrow>
    grow i d xs ! k = (if k < length xs then xs ! k else d)"
  by (auto simp: grow_def nth_append)

lemma runningTasks_entry [simp]:
  "runningTasks (access now j n s) = runningTasks s"
  "runningTasks (set_status j n st s) = runningTasks s"
  by (simp_all add: access_def set_status_def Let_def)

lemma status_at_runningTasks [simp]: "status_at (s\<lparr>runningTasks := rts\<rparr>) = status_at s"
  by (simp add: status_at_def status_ref_def fun_eq_iff)

lemma status_at_access:
  "status_at (access now j n s) j' n' =
     (case status_at s j' n' of
        Some st \<Rightarrow> Some st
      | None \<Rightarrow> if j' = j \<and> n' \<le> n then Some (mkStatus Empty now) else None)"
  by (auto simp: status_at_def status_ref_def access_def Let_def emptyRow_def nth_grow
      nth_list_update less_max_iff_disj split: option.splits)

lemma status_at_access_same:
  obtains st where "status_at (access now j n s) j n = Some st"
  by (cases "status_at s j n") (auto simp: status_at_access)

lemma status_ref_at: "status_at s j n = Some st \<Longrightarrow> status_ref s j n = st"
  by (simp add: status_at_def split: if_splits)

lemma status_at_set:
  assumes "status_at s j n \<noteq> None"
  shows "status_at (set_status j n st s) j' n' = (if j' = j \<and> n' = n then Some st else status_at s j' n')"
  using assms
  by (auto simp: status_at_def status_ref_def set_status_def nth_list_update split: if_splits)

lemma status_at_set_access:
  "status_at (set_status j n st (access now j n s)) j' n' =
     (if j' = j \<and> n' = n then Some st else status_at (access now j n s) j' n')"
  using status_at_access_same [of now j n s] by (intro status_at_set) auto

lemma status_at_empty [simp]: "status_at emptySnapshot j n = None"
  by (simp add: status_at_def emptySnapshot_def)

lemma emptyStatus_wf [simp]: "status_wf (mkStatus Empty now)" "\<not> isRunning (mkStatus Empty now)"
  by (simp_all add: status_wf_def status_tests mkStatus_def status_bits)

text \<open>Running and not running, as the update sees them.\<close>

lemma status_update_isRunning:
  assumes "status_update rt old new = Some st"
  shows "isRunning st = isRunning new"
  using assms by (cases rule: status_update_cases) (auto simp: status_tests status_bits)


section \<open>The invariant\<close>

definition running_at :: "TaskStatusSnapshot \<Rightarrow> nat \<Rightarrow> nat \<Rightarrow> bool" where
  "running_at s j n \<longleftrightarrow> (\<exists>st. status_at s j n = Some st \<and> isRunning st)"

lemma snapshot_wfI:
  assumes "um_wf (runningTasks s)"
    and "\<And>j n st. status_at s j n = Some st \<Longrightarrow> status_wf st"
    and "\<And>j n. running_at s j n \<longleftrightarrow> map_of (runningTasks s) (j, n) \<noteq> None"
  shows "snapshot_wf s"
  using assms by (simp add: snapshot_wf_def running_at_def)

lemma snapshot_wfD:
  assumes "snapshot_wf s"
  shows "um_wf (runningTasks s)"
    and "status_at s j n = Some st \<Longrightarrow> status_wf st"
    and "running_at s j n \<longleftrightarrow> map_of (runningTasks s) (j, n) \<noteq> None"
  using assms by (auto simp: snapshot_wf_def running_at_def)

lemma running_at_access [simp]: "running_at (access now j n s) = running_at s"
  by (auto simp: running_at_def status_at_access fun_eq_iff split: option.splits)

lemma running_at_runningTasks [simp]: "running_at (s\<lparr>runningTasks := rts\<rparr>) = running_at s"
  by (simp add: running_at_def fun_eq_iff)

lemma running_at_set_access [simp]:
  "running_at (set_status j n st (access now j n s)) j' n' =
     (if j' = j \<and> n' = n then isRunning st else running_at s j' n')"
  by (auto simp: running_at_def status_at_set_access status_at_access split: option.splits if_splits)

lemma set_status_runningTasks:
  "set_status j n st (s\<lparr>runningTasks := rts\<rparr>) = (set_status j n st s)\<lparr>runningTasks := rts\<rparr>"
  by (simp add: set_status_def)

lemma access_wf:
  assumes "snapshot_wf s"
  shows "snapshot_wf (access now j n s)"
  using snapshot_wfD [OF assms]
  by (intro snapshot_wfI) (auto simp: status_at_access split: option.splits if_splits)

lemma emptySnapshot_wf [simp]: "snapshot_wf emptySnapshot"
  by (rule snapshot_wfI) (auto simp: running_at_def, simp_all add: emptySnapshot_def)

text \<open>Replacing one status together with the matching change of the running tasks.\<close>

lemma set_status_wf:
  assumes "snapshot_wf s" and "status_wf st" and "um_wf rts"
    and "map_of rts (j, n) \<noteq> None \<longleftrightarrow> isRunning st"
    and "\<And>p. p \<noteq> (j, n) \<Longrightarrow> map_of rts p = map_of (runningTasks s) p"
  shows "snapshot_wf ((set_status j n st (access now j n s))\<lparr>runningTasks := rts\<rparr>)"
proof (rule snapshot_wfI)
  fix j' n' st'
  assume "status_at ((set_status j n st (access now j n s))\<lparr>runningTasks := rts\<rparr>) j' n' = Some st'"
  with assms(2) snapshot_wfD(2) [OF access_wf [OF assms(1)]] show "status_wf st'"
    by (auto simp: status_at_set_access split: if_splits)
next
  fix j' n'
  show "running_at ((set_status j n st (access now j n s))\<lparr>runningTasks := rts\<rparr>) j' n' \<longleftrightarrow>
      map_of (runningTasks ((set_status j n st (access now j n s))\<lparr>runningTasks := rts\<rparr>)) (j', n') \<noteq> None"
    using assms(4) assms(5) [of "(j', n')"] snapshot_wfD(3) [OF assms(1), of j' n'] by auto
qed (simp add: assms(3))

lemma set_status_keep_wf:
  assumes "snapshot_wf s" and "status_wf st"
    and "isRunning st \<longleftrightarrow> map_of (runningTasks s) (j, n) \<noteq> None"
  shows "snapshot_wf (set_status j n st (access now j n s))"
proof -
  let ?X = "set_status j n st (access now j n s)"
  have "snapshot_wf (?X\<lparr>runningTasks := runningTasks s\<rparr>)"
    using assms snapshot_wfD(1) by (intro set_status_wf) auto
  moreover have "?X\<lparr>runningTasks := runningTasks ?X\<rparr> = ?X" by simp
  ultimately show ?thesis by (simp only: runningTasks_entry)
qed

lemma map_of_delete_other: "p \<noteq> k \<Longrightarrow> map_of (AList.delete k xs) p = map_of xs p"
  by (simp add: delete_conv')

lemma map_of_delete_same [simp]: "map_of (AList.delete k xs) k = None"
  by (simp add: delete_conv')


section \<open>Updating a status\<close>

text \<open>
  The outcomes of \<open>updateStatus\<close> that do not end the process: the update is
  ignored and the stored status returned, or it replaces the stored status and
  the task enters, stays among, or leaves the running tasks.
\<close>

lemma updateStatus_cases:
  assumes "updateStatus now j n rt st s0 = Some (s, ret)"
  obtains
    (ignored) "map_of (runningTasks s0) (j, n) = None" "\<not> isRunning st"
      "s = access now j n s0" "ret = status_ref (access now j n s0) j n"
      "isOverwriteable st \<or> \<not> isOverwriteable ret"
  | (stored) rts where
      "status_update rt (status_ref (access now j n s0) j n) st = Some ret"
      "s = (set_status j n ret (access now j n s0))\<lparr>runningTasks := rts\<rparr>"
      "rts = (if \<not> isRunning st then AList.delete (j, n) (runningTasks s0)
              else case map_of (runningTasks s0) (j, n) of
                None \<Rightarrow> ((j, n), rt) # runningTasks s0 | Some _ \<Rightarrow> runningTasks s0)"
proof -
  let ?a = "access now j n s0"
  let ?rts = "if \<not> isRunning st then AList.delete (j, n) (runningTasks s0)
              else case map_of (runningTasks s0) (j, n) of
                None \<Rightarrow> ((j, n), rt) # runningTasks s0 | Some _ \<Rightarrow> runningTasks s0"
  have keep: "X\<lparr>runningTasks := runningTasks X\<rparr> = X" for X :: TaskStatusSnapshot by simp
  have drop: "map_of (runningTasks s0) (j, n) = None \<Longrightarrow>
      AList.delete (j, n) (runningTasks s0) = runningTasks s0"
    by (simp add: delete_idem map_of_eq_None_iff)
  have "(map_of (runningTasks s0) (j, n) = None \<and> \<not> isRunning st \<and> s = ?a \<and>
        ret = status_ref ?a j n \<and> (isOverwriteable st \<or> \<not> isOverwriteable ret)) \<or>
      (status_update rt (status_ref ?a j n) st = Some ret \<and>
       s = (set_status j n ret ?a)\<lparr>runningTasks := ?rts\<rparr>)"
    using assms keep [of "set_status j n ret ?a"] drop
    unfolding updateStatus_def Let_def
    by (auto simp: set_status_runningTasks split: option.splits if_splits)
  then show thesis using ignored stored by blast
qed

lemma status_ref_access_wf:
  assumes "snapshot_wf s"
  shows "status_wf (status_ref (access now j n s) j n)"
proof -
  obtain st where st: "status_at (access now j n s) j n = Some st"
    by (rule status_at_access_same)
  with snapshot_wfD(2) [OF access_wf [OF assms] this] show ?thesis
    by (simp add: status_ref_at)
qed

lemma status_ref_access_running:
  "isRunning (status_ref (access now j n s) j n) = running_at s j n"
proof -
  obtain st where "status_at (access now j n s) j n = Some st"
    by (rule status_at_access_same)
  then have "running_at (access now j n s) j n = isRunning (status_ref (access now j n s) j n)"
    unfolding running_at_def by (simp add: status_ref_at)
  then show ?thesis by simp
qed

lemma updateStatus_snapshot_wf:
  assumes "snapshot_wf s0" and "status_wf st"
    and upd: "updateStatus now j n rt st s0 = Some (s, ret)"
  shows "snapshot_wf s" and "status_wf ret"
proof -
  from upd have "snapshot_wf s \<and> status_wf ret"
  proof (cases rule: updateStatus_cases)
    case ignored
    with assms(1) show ?thesis by (simp add: access_wf status_ref_access_wf)
  next
    case (stored rts)
    have ret: "status_wf ret" "isRunning ret = isRunning st"
      using status_update_status_wf [OF stored(1) assms(2)] status_update_isRunning [OF stored(1)]
      by auto
    have "snapshot_wf ((set_status j n ret (access now j n s0))\<lparr>runningTasks := rts\<rparr>)"
    proof (rule set_status_wf [OF assms(1) ret(1)])
      show "um_wf rts"
        using snapshot_wfD(1) [OF assms(1)]
        by (auto simp: stored(3) um_wf_def map_of_eq_None_iff split: option.splits
            intro: um_wf_delete [unfolded um_wf_def])
    qed (auto simp: stored(3) ret(2) map_of_delete_other split: option.splits)
    with ret(1) stored(2) show ?thesis by simp
  qed
  then show "snapshot_wf s" and "status_wf ret" by auto
qed

text \<open>The tests before the stored status is replaced.\<close>

definition update_accepted :: "int \<Rightarrow> nat \<Rightarrow> nat \<Rightarrow> TaskStatus \<Rightarrow> TaskStatusSnapshot \<Rightarrow> bool" where
  "update_accepted now j n st s \<longleftrightarrow>
     isRunning st \<or> map_of (runningTasks s) (j, n) \<noteq> None \<or>
     (\<not> isOverwriteable st \<and> isOverwriteable (status_ref (access now j n s) j n))"

lemma updateStatus_None:
  assumes "snapshot_wf s"
  shows "updateStatus now j n rt st s = None \<longleftrightarrow>
    (\<exists>cur. map_of (runningTasks s) (j, n) = Some cur \<and> invocationID cur \<noteq> invocationID rt) \<or>
    (update_accepted now j n st s \<and> usesBackoff st \<and>
     \<not> allSet (bits st) DoesNotAdvanceBackoff \<and>
     noMoreBackoffs (nextBackoffDuration rt) \<and> \<not> allSet (bits st) Error)"
  using snapshot_wfD(3) [OF assms, of j n]
  unfolding updateStatus_def Let_def update_accepted_def
  by (auto simp: status_ref_access_running status_update_None [OF status_ref_access_wf [OF assms]]
      split: option.splits)

text \<open>Once there is room for an entry, \<open>access\<close> changes nothing.\<close>

lemma access_id:
  assumes "status_at s j n \<noteq> None"
  shows "access now j n s = s"
proof -
  have "j < length (rows s)" "n < length (row_statuses (rows s ! j))"
    using assms by (auto simp: status_at_def split: if_splits)
  then show ?thesis by (simp add: access_def grow_def)
qed

lemma status_ref_set [simp]:
  "status_at s j n \<noteq> None \<Longrightarrow> status_ref (set_status j n st s) j n = st"
  by (rule status_ref_at) (simp add: status_at_set)

lemma set_status_twice [simp]: "set_status j n st' (set_status j n st s) = set_status j n st' s"
  by (cases "j < length (rows s)") (simp_all add: set_status_def list_update_beyond)


section \<open>The race of a lost worker with a real status\<close>

lemma updateStatus_finish:
  assumes "map_of (runningTasks s) (j, n) = Some cur" and "invocationID cur = invocationID rt"
    and "\<not> isRunning st" and "status_at s j n \<noteq> None"
  shows "updateStatus now j n rt st s =
    map_option (\<lambda>st'. ((set_status j n st' s)
        \<lparr>runningTasks := AList.delete (j, n) (runningTasks s)\<rparr>, st'))
      (status_update rt (status_ref s j n) st)"
  using assms by (simp add: updateStatus_def access_id set_status_runningTasks)

lemma updateStatus_late_overwriteable:
  assumes "map_of (runningTasks s) (j, n) = None" and "\<not> isRunning st" and "isOverwriteable st"
    and "status_at s j n = Some stored" and "\<not> isRunning stored"
  shows "updateStatus now j n rt st s = Some (s, stored)"
  using assms by (simp add: updateStatus_def access_id status_ref_at)

lemma updateStatus_over_overwriteable:
  assumes "map_of (runningTasks s) (j, n) = None" and "\<not> isRunning st" and "\<not> isOverwriteable st"
    and "status_at s j n = Some stored" and "isOverwriteable stored"
  shows "updateStatus now j n rt st s =
    map_option (\<lambda>st'. (set_status j n st' s, st')) (status_update rt stored st)"
  using assms by (simp add: updateStatus_def access_id status_ref_at)

lemma workerLost_bits:
  "\<not> isRunning (workerLost t shard b)" "isOverwriteable (workerLost t shard b)"
  "usesBackoff (workerLost t shard b)" "hasSavedBackoff (workerLost t shard b)"
  "savedBackoff (workerLost t shard b) = Some (uint b)"
  "allSet (bits (workerLost t shard b)) Error"
  "\<not> allSet (bits (workerLost t shard b)) DoesNotAdvanceBackoff"
  by (simp_all add: workerLost_def mkStatusData_def mkStatus_def status_tests status_bits
      bit_or_iff savedBackoff_def kBistroSavedBackoff_def)

text \<open>The stored form of a lost status: it can be overwritten and remembers the backoff.\<close>

lemma status_update_workerLost:
  assumes "status_wf stored"
  obtains l where "status_update rt stored (workerLost t shard b) = Some l"
    "isOverwriteable l" "hasSavedBackoff l" "savedBackoff l = Some (uint b)" "\<not> isRunning l"
proof -
  let ?lost = "workerLost t shard b"
  obtain l where l: "status_update rt stored ?lost = Some l"
    using status_update_None [OF assms, of rt ?lost] workerLost_bits [of t shard b] by auto
  from l have "isOverwriteable l \<and> hasSavedBackoff l \<and> savedBackoff l = Some (uint b) \<and> \<not> isRunning l"
    using workerLost_bits [of t shard b]
    by (cases rule: status_update_cases)
      (simp_all add: status_tests status_bits savedBackoff_def)
  with l that show thesis by blast
qed

text \<open>Only the previous backoff of the old status matters to an update.\<close>

lemma status_update_same_backoff:
  assumes "\<not> hasSavedBackoff old" and "backoffDuration old = 0"
    and "hasSavedBackoff old'"
    and "savedBackoff old' = Some (uint (word_of_int (seconds (nextBackoffDuration rt)) :: u32))"
  shows "status_update rt old' new = status_update rt old new"
  using assms by (simp add: status_update_def)

lemma lost_and_real_commute:
  assumes wf: "snapshot_wf s" and cur: "map_of (runningTasks s) (j, n) = Some cur"
    and inv: "invocationID rt = invocationID cur" "invocationID rt' = invocationID cur"
    and stored: "status_at s j n = Some stored" "\<not> hasSavedBackoff stored" "backoffDuration stored = 0"
    and reported: "\<not> isRunning reported" "\<not> isOverwriteable reported"
    and lost: "lost = workerLost t shard (word_of_int (seconds (nextBackoffDuration rt)))"
  shows "Option.bind (updateStatus now j n rt reported s) (\<lambda>(s', _). updateStatus now' j n rt' lost s') =
    Option.bind (updateStatus now' j n rt' lost s) (\<lambda>(s', _). updateStatus now j n rt reported s')"
proof -
  let ?rts = "AList.delete (j, n) (runningTasks s)"
  have ref: "status_ref s j n = stored" by (rule status_ref_at [OF stored(1)])
  have stored_wf: "status_wf stored" by (rule snapshot_wfD(2) [OF wf stored(1)])
  note bits = workerLost_bits [of t shard "word_of_int (seconds (nextBackoffDuration rt))", folded lost]
  obtain l where l: "status_update rt' stored lost = Some l" "isOverwriteable l" "\<not> isRunning l"
    and real_upd: "status_update rt l reported = status_update rt stored reported"
  proof -
    obtain l where l: "status_update rt' stored lost = Some l" "isOverwriteable l"
      "hasSavedBackoff l" "\<not> isRunning l"
      "savedBackoff l = Some (uint (word_of_int (seconds (nextBackoffDuration rt)) :: u32))"
      unfolding lost by (rule status_update_workerLost [OF stored_wf])
    show thesis
      by (rule that [OF l(1,2,4)]) (rule status_update_same_backoff [OF stored(2,3) l(3,5)])
  qed
  have first: "updateStatus now j n rt reported s =
      map_option (\<lambda>st'. ((set_status j n st' s)\<lparr>runningTasks := ?rts\<rparr>, st'))
        (status_update rt stored reported)"
    using cur inv(1) reported(1) stored(1) by (simp add: updateStatus_finish ref)
  have lost_first: "updateStatus now' j n rt' lost s =
      Some ((set_status j n l s)\<lparr>runningTasks := ?rts\<rparr>, l)"
    using cur inv(2) bits(1) stored(1) l(1) by (simp add: updateStatus_finish ref)
  have real_second: "updateStatus now j n rt reported ((set_status j n l s)\<lparr>runningTasks := ?rts\<rparr>) =
      map_option (\<lambda>st'. ((set_status j n st' s)\<lparr>runningTasks := ?rts\<rparr>, st'))
        (status_update rt stored reported)"
    using reported l(2) stored(1)
    by (subst updateStatus_over_overwriteable [where stored = l])
      (simp_all add: status_at_set set_status_runningTasks real_upd)
  have lost_second: "updateStatus now' j n rt' lost ((set_status j n st' s)\<lparr>runningTasks := ?rts\<rparr>) =
      Some ((set_status j n st' s)\<lparr>runningTasks := ?rts\<rparr>, st')"
    if "status_update rt stored reported = Some st'" for st'
    using bits(1,2) stored(1) status_update_isRunning [OF that] reported(1)
    by (intro updateStatus_late_overwriteable) (simp_all add: status_at_set)
  show ?thesis
    by (cases "status_update rt stored reported")
      (simp_all add: first lost_first real_second lost_second)
qed


section \<open>Loading the statuses of a new configuration\<close>

lemma runningTasks_rows [simp]:
  "runningTasks (clear_rows c s) = runningTasks s" "runningTasks (grow_rows c s) = runningTasks s"
  "runningTasks (mark_loaded c s) = runningTasks s"
  by (simp_all add: clear_rows_def grow_rows_def mark_loaded_def)

lemma status_at_clear_rows:
  "status_at (clear_rows c s) j n = (if j \<in> set c then status_at s j n else None)"
  by (auto simp: status_at_def status_ref_def clear_rows_def emptyRow_def)

lemma status_at_grow_rows [simp]: "status_at (grow_rows c s) = status_at s"
  by (auto simp: status_at_def status_ref_def grow_rows_def emptyRow_def nth_grow fun_eq_iff
      less_max_iff_disj split: if_splits)

lemma status_at_mark_loaded [simp]: "status_at (mark_loaded c s) = status_at s"
  by (auto simp: status_at_def status_ref_def mark_loaded_def fun_eq_iff split: if_splits)

lemma running_at_rows [simp]:
  "running_at (clear_rows c s) j n \<longleftrightarrow> j \<in> set c \<and> running_at s j n"
  "running_at (grow_rows c s) = running_at s" "running_at (mark_loaded c s) = running_at s"
  by (auto simp: running_at_def status_at_clear_rows fun_eq_iff)

lemma length_rows_access: "length (rows (access now j n s)) = max (length (rows s)) (j + 1)"
  by (simp add: access_def Let_def)

lemma length_rows_set_status [simp]: "length (rows (set_status j n st s)) = length (rows s)"
  by (simp add: set_status_def)

lemma length_grow_rows: "j \<in> set c \<Longrightarrow> j < length (rows (grow_rows c s))"
  by (auto simp: grow_rows_def less_max_iff_disj less_Suc_eq_le)

text \<open>Marking one running task keeps the invariant.\<close>

lemma mark_running_wf:
  assumes "snapshot_wf s" and "((j, n), rt) \<in> set (runningTasks s)"
  shows "snapshot_wf (set_status j n (status_running now) (access now j n s))"
proof -
  have "map_of (runningTasks s) (j, n) \<noteq> None"
    using assms(2) by (metis weak_map_of_SomeI option.distinct(1))
  then show ?thesis
    using assms(1) factories_wf(1)
    by (intro set_status_keep_wf) (auto simp: status_tests status_factories status_bits)
qed

lemma mark_running_loop:
  assumes "snapshot_wf s" and "names_ok T s" and "set xs \<subseteq> set (runningTasks s)"
  obtains s' c' where "foldO (mark_running T now) xs (s, c) = Some (s', c')"
    "snapshot_wf s'" "runningTasks s' = runningTasks s"
    "set c' = set c \<union> (\<lambda>x. fst (fst x)) ` set xs"
proof -
  have "\<exists>s' c'. foldO (mark_running T now) xs (s, c) = Some (s', c') \<and> snapshot_wf s' \<and>
      runningTasks s' = runningTasks s \<and> set c' = set c \<union> (\<lambda>x. fst (fst x)) ` set xs"
    using assms
  proof (induction xs arbitrary: s c)
    case (Cons x xs)
    obtain j n rt where x: "x = ((j, n), rt)" by (metis surj_pair)
    let ?s = "set_status j n (status_running now) (access now j n s)"
    from Cons.prems x have "id_of (jobNameTable T) (rt_job rt) = Some j"
      "id_of (nodeNameTable T) (rt_node rt) = Some n"
      by (auto simp: names_ok_def)
    then have step: "mark_running T now x (s, c) = Some (?s, List.insert j c)"
      by (simp add: mark_running_def x)
    have "snapshot_wf ?s" using Cons.prems x by (intro mark_running_wf) auto
    moreover have "names_ok T ?s" using Cons.prems(2) by (simp add: names_ok_def)
    ultimately obtain s' c' where "foldO (mark_running T now) xs (?s, List.insert j c) = Some (s', c')"
      "snapshot_wf s'" "runningTasks s' = runningTasks s"
      "set c' = insert j (set c) \<union> (\<lambda>x. fst (fst x)) ` set xs"
      using Cons.IH [of ?s "List.insert j c"] Cons.prems(3) by auto
    with step x show ?case by auto
  qed simp
  with that show thesis by blast
qed

lemma rows_wf:
  assumes "snapshot_wf s" and "\<forall>((j, n), rt) \<in> set (runningTasks s). j \<in> set c"
  shows "snapshot_wf (grow_rows c (clear_rows c s))"
proof (rule snapshot_wfI)
  fix j n
  have "map_of (runningTasks s) (j, n) \<noteq> None \<Longrightarrow> j \<in> set c"
    using assms(2) by (auto dest: map_of_SomeD)
  then show "running_at (grow_rows c (clear_rows c s)) j n \<longleftrightarrow>
      map_of (runningTasks (grow_rows c (clear_rows c s))) (j, n) \<noteq> None"
    using snapshot_wfD(3) [OF assms(1), of j n] by auto
qed (use snapshot_wfD [OF assms(1)] in \<open>auto simp: status_at_clear_rows split: if_splits\<close>)

lemma mark_loaded_wf: "snapshot_wf s \<Longrightarrow> snapshot_wf (mark_loaded c s)"
  using snapshot_wfD [of s] by (intro snapshot_wfI) auto


text \<open>
  A stored result is loaded for a task that is not running.  The node table
  grows, and the running tasks keep their identifiers.
\<close>

lemma id_of_insert:
  assumes "st_wf t" and "st_insert x t = (t', i)"
  shows "id_of t' x = Some (nat i)" and "id_of t y = Some k \<Longrightarrow> id_of t' y = Some k"
proof -
  note ins = st_insert_lookup [OF assms]
  show "id_of t' x = Some (nat i)"
    using ins(1,2) by (simp add: id_of_def NotFound_def)
  show "id_of t y = Some k \<Longrightarrow> id_of t' y = Some k"
    using ins(3) [of y] by (auto simp: id_of_def Let_def split: if_splits)
qed

lemma id_of_inj:
  assumes "st_wf t" and "id_of t x = Some k" and "id_of t y = Some k"
  shows "x = y"
proof -
  have nonneg: "st_lookup t z \<noteq> NotFound \<Longrightarrow> 0 \<le> st_lookup t z" for z
    using st_wf_map [OF assms(1), of z "st_lookup t z"]
    by (auto simp: st_lookup_def split: option.splits)
  from assms(2,3) have "st_lookup t x \<noteq> NotFound" "st_lookup t y \<noteq> NotFound"
    "nat (st_lookup t x) = nat (st_lookup t y)"
    by (auto simp: id_of_def Let_def split: if_splits)
  with nonneg [of x] nonneg [of y] have "st_lookup t x = st_lookup t y" "st_lookup t x \<noteq> -1"
    by (auto simp: NotFound_def)
  then show ?thesis using names.lookup_inj [OF assms(1)] by blast
qed

definition not_running_named :: "TaskStatusSnapshot \<Rightarrow> string \<Rightarrow> string \<Rightarrow> bool" where
  "not_running_named s job node \<longleftrightarrow>
     list_all (\<lambda>(_, rt). (rt_job rt, rt_node rt) \<noteq> (job, node)) (runningTasks s)"

lemma load_result_step:
  assumes wf: "snapshot_wf s" and names: "names_ok T s"
    and known: "id_of (jobNameTable T) job \<noteq> None" and free: "not_running_named s job node"
  obtains T' s' where "load_result now (job, node, r, t) (T, s) = Some (T', s')"
    "snapshot_wf s'" "names_ok T' s'" "runningTasks s' = runningTasks s"
    "jobNameTable T' = jobNameTable T" "length (rows s) \<le> length (rows s')"
proof -
  obtain j where j: "id_of (jobNameTable T) job = Some j" using known by auto
  obtain nt i where ins: "st_insert node (nodeNameTable T) = (nt, i)" by fastforce
  let ?T = "T\<lparr>nodeNameTable := nt\<rparr>"
  have node_wf: "st_wf (nodeNameTable T)" "st_wf nt"
    using names ins st_insert_wf [of "nodeNameTable T" node] by (auto simp: names_ok_def)
  note ids = id_of_insert [OF node_wf(1) ins]
  have names': "names_ok ?T s"
    using names node_wf ids(2) by (auto simp: names_ok_def)
  have none: "map_of (runningTasks s) (j, nat i) = None"
  proof (rule ccontr)
    assume "map_of (runningTasks s) (j, nat i) \<noteq> None"
    then obtain rt where rt: "((j, nat i), rt) \<in> set (runningTasks s)"
      by (auto dest: map_of_SomeD)
    with names' have "id_of (jobNameTable T) (rt_job rt) = Some j" "id_of nt (rt_node rt) = Some (nat i)"
      by (auto simp: names_ok_def)
    then have "rt_job rt = job" "rt_node rt = node"
      using j ids(1) node_wf(2) names id_of_inj by (auto simp: names_ok_def)
    with free rt show False by (auto simp: not_running_named_def list_all_iff)
  qed
  have loaded: "snapshot_wf (set_status j (nat i) st (access now j (nat i) s))"
    if "st = status_done_at t \<or> st = status_failed now" for st
    using wf that none factories_wf(4,6)
    by (intro set_status_keep_wf) (auto simp: status_tests status_factories status_bits)
  show thesis
  proof (rule that)
    show "load_result now (job, node, r, t) (T, s) = Some (?T,
        if r = TaskResult_DONE then set_status j (nat i) (status_done_at t) (access now j (nat i) s)
        else if r = TaskResult_FAILED then set_status j (nat i) (status_failed now) (access now j (nat i) s)
        else access now j (nat i) s)"
      by (simp add: load_result_def j ins Let_def)
  qed (use loaded names' access_wf [OF wf] in
      \<open>auto simp: names_ok_def length_rows_access max_def\<close>)
qed

lemma load_results_loop:
  assumes "snapshot_wf s" and "names_ok T s"
    and "\<forall>(job, node, r, t) \<in> set results.
      id_of (jobNameTable T) job \<noteq> None \<and> not_running_named s job node"
  obtains T' s' where "foldO (load_result now) results (T, s) = Some (T', s')"
    "snapshot_wf s'" "names_ok T' s'" "runningTasks s' = runningTasks s"
    "length (rows s) \<le> length (rows s')"
proof -
  let ?I = "\<lambda>(T', s'). snapshot_wf s' \<and> names_ok T' s' \<and> runningTasks s' = runningTasks s \<and>
      jobNameTable T' = jobNameTable T \<and> length (rows s) \<le> length (rows s')"
  have "\<exists>Ts. foldO (load_result now) results (T, s) = Some Ts \<and> ?I Ts"
  proof (rule foldO_total)
    fix x Ts assume x: "x \<in> set results" and I: "?I Ts"
    obtain job node r t T1 s1 where eq: "x = (job, node, r, t)" "Ts = (T1, s1)"
      by (metis surj_pair)
    with I x assms(3) have "id_of (jobNameTable T1) job \<noteq> None" "not_running_named s1 job node"
      by (auto simp: not_running_named_def)
    with I eq obtain T' s' where "load_result now (job, node, r, t) (T1, s1) = Some (T', s')"
      "snapshot_wf s'" "names_ok T' s'" "runningTasks s' = runningTasks s1"
      "jobNameTable T' = jobNameTable T1" "length (rows s1) \<le> length (rows s')"
      using load_result_step [of s1 T1 job node now r t] by auto
    with I eq show "\<exists>Ts'. load_result now x Ts = Some Ts' \<and> ?I Ts'" by auto
  qed (use assms in auto)
  with that show thesis by auto
qed


lemma id_of_name:
  assumes "st_wf t"
  shows "id_of t x = Some k \<longleftrightarrow> st_name t (int k) = Some x"
proof
  assume id: "id_of t x = Some k"
  then have found: "st_lookup t x \<noteq> NotFound" and k: "nat (st_lookup t x) = k"
    by (auto simp: id_of_def Let_def split: if_splits)
  have "st_name t (st_lookup t x) = Some x" by (rule st_lookup_name [OF assms found])
  with k show "st_name t (int k) = Some x" by (auto simp: st_name_def split: if_splits)
next
  assume name: "st_name t (int k) = Some x"
  from st_name_lookup [OF assms name] show "id_of t x = Some k"
    by (simp add: id_of_def NotFound_def)
qed

lemma set_fold_insert: "set (fold (\<lambda>p. List.insert (f p)) xs c) = set c \<union> f ` set xs"
  by (induction xs arbitrary: c) auto

lemma those_map_Some:
  "(\<And>x. x \<in> set xs \<Longrightarrow> f x \<noteq> None) \<Longrightarrow> \<exists>ys. those (map f xs) = Some ys"
proof (induction xs)
  case (Cons x xs)
  then obtain y ys where "f x = Some y" "those (map f xs) = Some ys" by fastforce
  then show ?case by simp
qed simp

lemma those_Some_set: "those xs = Some ys \<Longrightarrow> y \<in> set ys \<Longrightarrow> Some y \<in> set xs"
  by (induction xs arbitrary: ys) (auto split: option.splits)

lemma isJobLoaded_mark_loaded:
  "j \<in> set c \<Longrightarrow> j < length (rows s) \<Longrightarrow> isJobLoaded j (mark_loaded c s)"
  by (simp add: isJobLoaded_def mark_loaded_def)

lemma updateForConfig_total:
  assumes wf: "snapshot_wf s" and names: "names_ok T s"
    and known: "\<forall>p \<in> set (jobs config). st_name (jobNameTable T) (int (job_id (snd p))) \<noteq> None"
    and fetch: "\<forall>job_names. \<forall>(job, node, r, t) \<in> set (fetch job_names).
      job \<in> set job_names \<and> not_running_named s job node"
  obtains T' s' where "updateForConfig now config fetch (T, s) = Some (T', s')"
    "snapshot_wf s'" "names_ok T' s'" "runningTasks s' = runningTasks s"
    "\<forall>p \<in> set (jobs config). isJobLoaded (job_id (snd p)) s'"
proof -
  let ?c0 = "fold (\<lambda>p. List.insert (job_id (snd p))) (jobs config) []"
  obtain s1 c where loop: "foldO (mark_running T now) (runningTasks s) (s, ?c0) = Some (s1, c)"
    and s1: "snapshot_wf s1" "runningTasks s1 = runningTasks s"
    and c: "set c = set ?c0 \<union> (\<lambda>x. fst (fst x)) ` set (runningTasks s)"
    by (rule mark_running_loop [OF wf names order_refl])
  let ?s2 = "grow_rows c (clear_rows c s1)"
  have s2: "snapshot_wf ?s2" using s1 c by (intro rows_wf) force+
  have jobs_wf: "st_wf (jobNameTable T)" using names by (simp add: names_ok_def)
  have named: "st_name (jobNameTable T) (int j) \<noteq> None" if "j \<in> set c" for j
    using that known names id_of_name [OF jobs_wf] c
    by (auto simp: set_fold_insert names_ok_def)
  have "\<exists>job_names. those (map (\<lambda>j. st_name (jobNameTable T) (int j))
      (filter (\<lambda>j. \<not> isLoaded (rows ?s2 ! j)) c)) = Some job_names"
    by (rule those_map_Some) (simp add: named)
  then obtain job_names where
    jn: "those (map (\<lambda>j. st_name (jobNameTable T) (int j))
           (filter (\<lambda>j. \<not> isLoaded (rows ?s2 ! j)) c)) = Some job_names"
    by blast
  have known_names: "id_of (jobNameTable T) job \<noteq> None" if job: "job \<in> set job_names" for job
  proof -
    from those_Some_set [OF jn job] obtain j where "st_name (jobNameTable T) (int j) = Some job"
      by auto
    then show ?thesis by (simp add: id_of_name [OF jobs_wf, THEN iffD2])
  qed
  have "\<forall>(job, node, r, t) \<in> set (fetch job_names).
      id_of (jobNameTable T) job \<noteq> None \<and> not_running_named ?s2 job node"
    using fetch [rule_format, of _ job_names] known_names s1(2)
    by (auto simp: not_running_named_def)
  then obtain T' s3 where load: "foldO (load_result now) (fetch job_names) (T, ?s2) = Some (T', s3)"
    "snapshot_wf s3" "names_ok T' s3" "runningTasks s3 = runningTasks ?s2"
    "length (rows ?s2) \<le> length (rows s3)"
    using s2 names s1(2) by (elim load_results_loop [rotated 2]) (auto simp: names_ok_def)
  have "isJobLoaded (job_id (snd p)) (mark_loaded c s3)" if "p \<in> set (jobs config)" for p
    using that c load(5) length_grow_rows [of "job_id (snd p)" c "clear_rows c s1"]
    by (intro isJobLoaded_mark_loaded) (auto simp: set_fold_insert)
  moreover have "updateForConfig now config fetch (T, s) = Some (T', mark_loaded c s3)"
    by (simp add: updateForConfig_def loop jn load(1) Let_def)
  ultimately show thesis
    using that load s1(2) mark_loaded_wf [OF load(2)] by (auto simp: names_ok_def)
qed


section \<open>Reading the snapshot\<close>

text \<open>The statuses as the rest of the system sees them: empty entries are absent.\<close>

definition task_at :: "TaskStatusSnapshot \<Rightarrow> nat \<Rightarrow> nat \<Rightarrow> TaskStatus option" where
  "task_at s j n =
     (case status_at s j n of None \<Rightarrow> None | Some st \<Rightarrow> if isEmpty st then None else Some st)"

lemma getPtr_task_at:
  assumes "j \<ge> length (rows s) \<or> isLoaded (rows s ! j)"
  shows "getPtr s j n = Some (task_at s j n)"
  using assms by (auto simp: getPtr_def task_at_def status_at_def status_ref_def)

lemma getRow_task_at:
  assumes "getRow s j = Some row"
  shows "row_getPtr row n = task_at s j n"
  using assms
  by (auto simp: getRow_def row_getPtr_def task_at_def status_at_def status_ref_def
      split: if_splits)

lemma task_at_access [simp]: "task_at (access now j n s) = task_at s"
  by (auto simp: task_at_def status_at_access fun_eq_iff mkStatus_def isEmpty_def
      split: option.splits)

lemma task_at_set_access:
  "task_at (set_status j n st (access now j n s)) j' n' =
     (if j' = j \<and> n' = n then if isEmpty st then None else Some st else task_at s j' n')"
proof (cases "j' = j \<and> n' = n")
  case True
  then show ?thesis by (simp add: task_at_def status_at_set_access)
next
  case False
  then have "task_at (set_status j n st (access now j n s)) j' n' = task_at (access now j n s) j' n'"
    by (auto simp: task_at_def status_at_set_access simp del: task_at_access)
  with False show ?thesis by auto
qed

lemma task_at_runningTasks [simp]: "task_at (s\<lparr>runningTasks := rts\<rparr>) = task_at s"
  by (simp add: task_at_def fun_eq_iff)

text \<open>An update changes the status of its own task only.\<close>

lemma updateStatus_frame:
  assumes "updateStatus now j n rt st s = Some (s', ret)" and "(j', n') \<noteq> (j, n)"
  shows "task_at s' j' n' = task_at s j' n'"
    and "map_of (runningTasks s') (j', n') = map_of (runningTasks s) (j', n')"
  using assms
  by (cases rule: updateStatus_cases;
      auto simp: task_at_set_access map_of_delete_other split: option.splits)+


section \<open>Forgiving a job\<close>

lemma forgive_isRunning: "forgive st = Some st' \<Longrightarrow> isRunning st' = isRunning st"
  unfolding forgive_def Let_def
  by (auto simp: status_tests status_bits split: if_splits option.splits dynamic.splits)

lemma those_nth:
  assumes "those (map f xs) = Some ys"
  shows "length ys = length xs" and "i < length xs \<Longrightarrow> f (xs ! i) = Some (ys ! i)"
proof -
  have "length ys = length xs \<and> (\<forall>i < length xs. f (xs ! i) = Some (ys ! i))"
    using assms
    by (induction xs arbitrary: ys) (auto simp: nth_Cons less_Suc_eq_0_disj split: option.splits nat.splits)
  then show "length ys = length xs" and "i < length xs \<Longrightarrow> f (xs ! i) = Some (ys ! i)" by auto
qed

lemma forgiveJob_status_at:
  assumes "forgiveJob_rows j s = Some s'"
  shows "status_at s' j' n = (if j' = j then Option.bind (status_at s j n) forgive else status_at s j' n)"
    and "runningTasks s' = runningTasks s"
  using assms those_nth [of forgive "row_statuses (rows s ! j)"]
  by (auto simp: forgiveJob_rows_def status_at_def status_ref_def nth_list_update split: if_splits)

lemma forgiveJob_total:
  assumes "snapshot_wf s"
  obtains s' where "forgiveJob_rows j s = Some s'"
proof (cases "j < length (rows s)")
  case True
  have "forgive st \<noteq> None" if "st \<in> set (row_statuses (rows s ! j))" for st
  proof -
    from that obtain n where "n < length (row_statuses (rows s ! j))" "row_statuses (rows s ! j) ! n = st"
      by (auto simp: in_set_conv_nth)
    with True have "status_at s j n = Some st" by (simp add: status_at_def status_ref_def)
    from forgive_total [OF snapshot_wfD(2) [OF assms this]] show ?thesis by auto
  qed
  with True that show thesis
    using those_map_Some [of "row_statuses (rows s ! j)" forgive]
    by (auto simp: forgiveJob_rows_def)
next
  case False
  with that show thesis by (simp add: forgiveJob_rows_def)
qed

lemma forgiveJob_wf:
  assumes "snapshot_wf s" and "forgiveJob_rows j s = Some s'"
  shows "snapshot_wf s'"
proof (rule snapshot_wfI)
  note at = forgiveJob_status_at [OF assms(2)]
  show "um_wf (runningTasks s')" using snapshot_wfD(1) [OF assms(1)] by (simp add: at(2))
  show "status_wf st" if "status_at s' j' n = Some st" for j' n st
    using that snapshot_wfD(2) [OF assms(1)] forgive_total
    by (fastforce simp: at(1) bind_eq_Some_conv split: if_splits)
  have "running_at s' j' n = running_at s j' n" for j' n
  proof (cases "j' = j")
    case True
    have "isRunning st = isRunning st'" if "forgive st = Some st'" for st st'
      using forgive_isRunning [OF that] by simp
    moreover have "forgive st \<noteq> None" if "status_at s j n = Some st" for st
      using forgive_total [OF snapshot_wfD(2) [OF assms(1) that]] by auto
    ultimately show ?thesis
      using True by (cases "status_at s j n") (auto simp: running_at_def at(1))
  qed (simp add: running_at_def at(1))
  then show "running_at s' j' n \<longleftrightarrow> map_of (runningTasks s') (j', n) \<noteq> None" for j' n
    using snapshot_wfD(3) [OF assms(1), of j' n] by (simp add: at(2))
qed

end
