(* ===== verification/Task_Statuses.thy ===== *)
theory Task_Statuses
  imports Task_Status_Snapshot
begin

text \<open>
  \<^verbatim>\<open>statuses/TaskStatuses\<close>, \<^verbatim>\<open>statuses/TaskStore.h\<close> and \<^verbatim>\<open>statuses/SQLiteTaskStore\<close>:
  the synchronized owner of the one true snapshot, and the store that keeps
  finished tasks across restarts of the scheduler.  Status observers only
  receive values, and what they throw is caught, so they are not part of the
  state.
\<close>

section \<open>Task stores\<close>

type_synonym StoreRow = "string \<times> string \<times> int \<times> int"

record 'd TaskStore =
  fetchJobTasks :: "'d \<Rightarrow> string list \<Rightarrow> StoreRow list"
  store_result :: "string \<Rightarrow> string \<Rightarrow> int \<Rightarrow> int \<Rightarrow> 'd \<Rightarrow> string + 'd"

definition NoOpTaskStore :: "'d TaskStore" where
  "NoOpTaskStore =
     \<lparr>fetchJobTasks = (\<lambda>d job_ids. []), store_result = (\<lambda>job node r now d. Inr d)\<rparr>"

text \<open>
  The SQLite store.  Its table has the primary key (job, node), so that
  \<^verbatim>\<open>INSERT OR REPLACE\<close> updates the row of the key; the query selects the rows of
  one job.  \<open>sql_error\<close> is the text of the exception that executing the
  statement throws, if it does.
\<close>

type_synonym SqlTable = "((string \<times> string) \<times> (int \<times> int)) list"

definition sqlite_table_name :: "string \<Rightarrow> string" where
  "sqlite_table_name table = map (\<lambda>c. if c = CHR ''.'' then CHR ''_'' else c) table"

definition sqlite_select :: "SqlTable \<Rightarrow> string \<Rightarrow> StoreRow list" where
  "sqlite_select d job =
     map (\<lambda>((jb, nd), (r, t)). (jb, nd, r, t)) (filter (\<lambda>((jb, nd), _). jb = job) d)"

definition sqlite_fetchJobTasks :: "SqlTable \<Rightarrow> string list \<Rightarrow> StoreRow list" where
  "sqlite_fetchJobTasks d job_ids = concat (map (sqlite_select d) job_ids)"

definition sqlite_store ::
  "(StoreRow \<Rightarrow> string option) \<Rightarrow> string \<Rightarrow> string \<Rightarrow> int \<Rightarrow> int \<Rightarrow> SqlTable \<Rightarrow> string + SqlTable" where
  "sqlite_store sql_error job node r now d =
     (case sql_error (job, node, r, now) of
        Some e \<Rightarrow> Inl e
      | None \<Rightarrow> Inr (AList.update (job, node) (r, now) d))"

definition SQLiteTaskStore :: "(StoreRow \<Rightarrow> string option) \<Rightarrow> SqlTable TaskStore" where
  "SQLiteTaskStore sql_error =
     \<lparr>fetchJobTasks = sqlite_fetchJobTasks, store_result = sqlite_store sql_error\<rparr>"


section \<open>Operations\<close>

text \<open>The state: the snapshot, the global name tables, and the contents of the store.\<close>

record 'd TaskStatuses =
  snapshot :: TaskStatusSnapshot
  tables :: NameTables
  store_state :: 'd

text \<open>\<open>None\<close> is the \<^verbatim>\<open>CHECK(false)\<close> on a result that cannot be persisted.\<close>

definition recordStatusUpdate ::
  "'d TaskStore option \<Rightarrow> int \<Rightarrow> RunningTask \<Rightarrow> TaskStatus \<Rightarrow> 'd \<Rightarrow> 'd option" where
  "recordStatusUpdate taskStore now rt new_status d =
     (case taskStore of
        None \<Rightarrow> Some d
      | Some ts \<Rightarrow>
          let store = (\<lambda>r. case store_result ts (rt_job rt) (rt_node rt) r now d of
                             Inl _ \<Rightarrow> None | Inr d' \<Rightarrow> Some d') in
          if isDone new_status then store TaskResult_DONE
          else if isFailed new_status then store TaskResult_FAILED
          else Some d)"

definition statuses_updateStatus_ids ::
  "'d TaskStore option \<Rightarrow> int \<Rightarrow> nat \<Rightarrow> nat \<Rightarrow> RunningTask \<Rightarrow> TaskStatus \<Rightarrow>
   'd TaskStatuses \<Rightarrow> 'd TaskStatuses option" where
  "statuses_updateStatus_ids taskStore now j n rt st S =
     (case updateStatus now j n rt st (snapshot S) of
        None \<Rightarrow> None
      | Some (s, stored_status) \<Rightarrow>
          map_option (\<lambda>d. S\<lparr>snapshot := s, store_state := d\<rparr>)
            (recordStatusUpdate taskStore now rt stored_status (store_state S)))"

definition statuses_updateStatus ::
  "'d TaskStore option \<Rightarrow> int \<Rightarrow> RunningTask \<Rightarrow> TaskStatus \<Rightarrow>
   'd TaskStatuses \<Rightarrow> 'd TaskStatuses option" where
  "statuses_updateStatus taskStore now rt st S =
     (case st_insert (rt_job rt) (jobNameTable (tables S)) of (jt, j) \<Rightarrow>
      case st_insert (rt_node rt) (nodeNameTable (tables S)) of (nt, n) \<Rightarrow>
        statuses_updateStatus_ids taskStore now (nat j) (nat n) rt st
          (S\<lparr>tables := \<lparr>jobNameTable = jt, nodeNameTable = nt\<rparr>\<rparr>))"

definition statuses_updateForConfig ::
  "'d TaskStore \<Rightarrow> int \<Rightarrow> Config \<Rightarrow> 'd TaskStatuses \<Rightarrow> 'd TaskStatuses option" where
  "statuses_updateForConfig taskStore now config S =
     map_option (\<lambda>(T, s). S\<lparr>snapshot := s, tables := T\<rparr>)
       (updateForConfig now config (fetchJobTasks taskStore (store_state S)) (tables S, snapshot S))"

text \<open>An unknown job throws; the inner option is as in \<open>forgive\<close>.\<close>

definition statuses_forgiveJob ::
  "string \<Rightarrow> 'd TaskStatuses \<Rightarrow> string + 'd TaskStatuses option" where
  "statuses_forgiveJob job S =
     (let i = st_lookup (jobNameTable (tables S)) job in
      if i = NotFound then Inl (''Invalid job id: '' @ job)
      else Inr (map_option (\<lambda>s. S\<lparr>snapshot := s\<rparr>) (forgiveJob_rows (nat i) (snapshot S))))"

definition copyRunningTask :: "nat \<Rightarrow> nat \<Rightarrow> 'd TaskStatuses \<Rightarrow> RunningTask option" where
  "copyRunningTask j n S = map_of (runningTasks (snapshot S)) (j, n)"

definition copyRunningTasks :: "'d TaskStatuses \<Rightarrow> ((nat \<times> nat) \<times> RunningTask) list" where
  "copyRunningTasks S = runningTasks (snapshot S)"

definition copySnapshot :: "'d TaskStatuses \<Rightarrow> TaskStatusSnapshot" where
  "copySnapshot S = snapshot S"

definition statuses_wf :: "'d TaskStatuses \<Rightarrow> bool" where
  "statuses_wf S \<longleftrightarrow> snapshot_wf (snapshot S) \<and> names_ok (tables S) (snapshot S)"


section \<open>The contract of a store\<close>

text \<open>Every store answers for the requested jobs only.\<close>

locale task_store =
  fixes fetch :: "'d \<Rightarrow> string list \<Rightarrow> StoreRow list"
    and store :: "string \<Rightarrow> string \<Rightarrow> int \<Rightarrow> int \<Rightarrow> 'd \<Rightarrow> string + 'd"
    and inv :: "'d \<Rightarrow> bool"
  assumes fetch_requested: "(job, node, r, t) \<in> set (fetch d job_ids) \<Longrightarrow> job \<in> set job_ids"
    and store_inv: "inv d \<Longrightarrow> store job node r t d = Inr d' \<Longrightarrow> inv d'"

text \<open>A persistent store remembers the last result of each task.\<close>

locale persistent_store = task_store +
  assumes store_fetch:
      "inv d \<Longrightarrow> store job node r t d = Inr d' \<Longrightarrow> job \<in> set job_ids \<Longrightarrow>
        (job, node, r', t') \<in> set (fetch d' job_ids) \<longleftrightarrow> (r', t') = (r, t)"
    and store_other:
      "inv d \<Longrightarrow> store job node r t d = Inr d' \<Longrightarrow> (job', node') \<noteq> (job, node) \<Longrightarrow>
        (job', node', r', t') \<in> set (fetch d' job_ids) \<longleftrightarrow> (job', node', r', t') \<in> set (fetch d job_ids)"
begin

fun store_all :: "StoreRow list \<Rightarrow> 'a \<Rightarrow> string + 'a" where
  "store_all [] d = Inr d"
| "store_all ((job, node, r, t) # xs) d = bindR (store job node r t d) (store_all xs)"

lemma store_all_other:
  assumes "inv d" and "store_all xs d = Inr d'"
    and "\<forall>(jb, nd, _) \<in> set xs. (jb, nd) \<noteq> (job, node)"
  shows "(job, node, r, t) \<in> set (fetch d' job_ids) \<longleftrightarrow> (job, node, r, t) \<in> set (fetch d job_ids)"
  using assms
proof (induction xs arbitrary: d)
  case (Cons x xs)
  obtain jb nd r1 t1 where x: "x = (jb, nd, r1, t1)" by (metis surj_pair)
  with Cons.prems obtain d1 where d1: "store jb nd r1 t1 d = Inr d1" "store_all xs d1 = Inr d'"
    by (auto simp: bindR_eq_Inr)
  have "inv d1" using Cons.prems(1) d1(1) by (rule store_inv)
  moreover have "(job, node) \<noteq> (jb, nd)" using Cons.prems(3) x by auto
  ultimately show ?case
    using Cons.IH [of d1] d1 Cons.prems store_other [OF Cons.prems(1) d1(1)] by simp
qed simp

text \<open>The last of a sequence of results for a task is the one that is read back.\<close>

lemma last_result_wins:
  assumes "inv d" and "store_all (xs @ (job, node, r, t) # ys) d = Inr d'"
    and "\<forall>(jb, nd, _) \<in> set ys. (jb, nd) \<noteq> (job, node)" and "job \<in> set job_ids"
  shows "(job, node, r', t') \<in> set (fetch d' job_ids) \<longleftrightarrow> (r', t') = (r, t)"
  using assms
proof (induction xs arbitrary: d)
  case Nil
  then obtain d1 where d1: "store job node r t d = Inr d1" "store_all ys d1 = Inr d'"
    by (auto simp: bindR_eq_Inr)
  then have "inv d1" using Nil.prems(1) store_inv by blast
  with d1 Nil.prems store_fetch [OF Nil.prems(1) d1(1) Nil.prems(4)] store_all_other [of d1 ys d' job node]
  show ?case by simp
next
  case (Cons x xs)
  obtain jb nd r1 t1 where x: "x = (jb, nd, r1, t1)" by (metis surj_pair)
  with Cons.prems obtain d1 where d1: "store jb nd r1 t1 d = Inr d1"
      "store_all (xs @ (job, node, r, t) # ys) d1 = Inr d'"
    by (auto simp: bindR_eq_Inr)
  have "inv d1" using Cons.prems(1) d1(1) by (rule store_inv)
  with Cons.IH [of d1] d1(2) Cons.prems(3,4) show ?case by blast
qed

end

interpretation noop: task_store
  "fetchJobTasks NoOpTaskStore" "store_result NoOpTaskStore" "\<lambda>_. True"
  by unfold_locales (simp_all add: NoOpTaskStore_def)

lemma sqlite_select_iff:
  "(job', node, r, t) \<in> set (sqlite_select d job) \<longleftrightarrow> job' = job \<and> ((job, node), (r, t)) \<in> set d"
  by (force simp: sqlite_select_def)

lemma sqlite_fetch_iff:
  "(job, node, r, t) \<in> set (sqlite_fetchJobTasks d job_ids) \<longleftrightarrow>
     job \<in> set job_ids \<and> ((job, node), (r, t)) \<in> set d"
  by (auto simp: sqlite_fetchJobTasks_def sqlite_select_iff)

lemma sqlite_row_iff:
  "um_wf d \<Longrightarrow> (k, v) \<in> set d \<longleftrightarrow> map_of d k = Some v"
  by (simp add: um_wf_def)

lemma um_wf_update: "um_wf d \<Longrightarrow> um_wf (AList.update k v d)"
  by (simp add: um_wf_def distinct_update)

interpretation sqlite: persistent_store sqlite_fetchJobTasks "sqlite_store sql_error" um_wf
proof unfold_locales
  fix d job node r t d' job_ids r' t' job' node'
  show "(job, node, r, t) \<in> set (sqlite_fetchJobTasks d job_ids) \<Longrightarrow> job \<in> set job_ids"
    by (simp add: sqlite_fetch_iff)
  assume wf: "um_wf d" and st: "sqlite_store sql_error job node r t d = Inr d'"
  then have d': "d' = AList.update (job, node) (r, t) d"
    by (auto simp: sqlite_store_def split: option.splits)
  show "um_wf d'" using wf by (simp add: d' um_wf_update)
  show "job \<in> set job_ids \<Longrightarrow>
      (job, node, r', t') \<in> set (sqlite_fetchJobTasks d' job_ids) \<longleftrightarrow> (r', t') = (r, t)"
    using wf by (auto simp: sqlite_fetch_iff d' sqlite_row_iff um_wf_update update_conv')
  show "(job', node') \<noteq> (job, node) \<Longrightarrow>
      (job', node', r', t') \<in> set (sqlite_fetchJobTasks d' job_ids) \<longleftrightarrow>
      (job', node', r', t') \<in> set (sqlite_fetchJobTasks d job_ids)"
    using wf by (auto simp: sqlite_fetch_iff d' sqlite_row_iff um_wf_update update_conv')
qed



section \<open>The invariant of the owner\<close>

lemma updateStatus_ret:
  assumes "updateStatus now j n rt st s = Some (s', ret)"
  shows "status_at s' j n = Some ret"
  using assms
proof (cases rule: updateStatus_cases)
  case ignored
  obtain x where "status_at (access now j n s) j n = Some x" by (rule status_at_access_same)
  with ignored show ?thesis by (simp add: status_ref_at)
qed (simp add: status_at_set_access)

lemma updateStatus_running_entries:
  assumes "updateStatus now j n rt st s = Some (s', ret)"
  shows "set (runningTasks s') \<subseteq> insert ((j, n), rt) (set (runningTasks s))"
  using assms
  by (cases rule: updateStatus_cases) (auto simp: AList.delete_eq split: option.splits)

lemma statuses_updateStatus_snapshot:
  assumes "statuses_updateStatus ts now rt st S = Some S'"
  obtains j n ret where
    "updateStatus now j n rt st (snapshot S) = Some (snapshot S', ret)"
    "st_insert (rt_job rt) (jobNameTable (tables S)) = (jobNameTable (tables S'), int j)
     \<or> \<not> st_wf (jobNameTable (tables S))"
    "st_insert (rt_node rt) (nodeNameTable (tables S)) = (nodeNameTable (tables S'), int n)
     \<or> \<not> st_wf (nodeNameTable (tables S))"
    "recordStatusUpdate ts now rt ret (store_state S) = Some (store_state S')"
proof -
  obtain jt ji where ji: "st_insert (rt_job rt) (jobNameTable (tables S)) = (jt, ji)" by fastforce
  obtain nt ni where ni: "st_insert (rt_node rt) (nodeNameTable (tables S)) = (nt, ni)" by fastforce
  from assms obtain s ret d where
    upd: "updateStatus now (nat ji) (nat ni) rt st (snapshot S) = Some (s, ret)"
    and rec: "recordStatusUpdate ts now rt ret (store_state S) = Some d"
    and S': "S' = S\<lparr>snapshot := s, tables := \<lparr>jobNameTable = jt, nodeNameTable = nt\<rparr>, store_state := d\<rparr>"
    by (auto simp: statuses_updateStatus_def statuses_updateStatus_ids_def ji ni split: option.splits)
  show thesis
    using st_insert_lookup(2) [OF _ ji] st_insert_lookup(2) [OF _ ni]
    by (intro that [of "nat ji" "nat ni" ret]) (use upd rec S' ji ni in auto)
qed

lemma names_ok_insert:
  assumes "names_ok T s"
    and "st_insert x (jobNameTable T) = (jobNameTable T', int j)"
    and "st_insert y (nodeNameTable T) = (nodeNameTable T', int n)"
  shows "names_ok T' s" and "id_of (jobNameTable T') x = Some j" and "id_of (nodeNameTable T') y = Some n"
proof -
  have wf: "st_wf (jobNameTable T)" "st_wf (nodeNameTable T)"
    using assms(1) by (auto simp: names_ok_def)
  have wf': "st_wf (jobNameTable T')" "st_wf (nodeNameTable T')"
    using st_insert_wf [OF wf(1), of x] st_insert_wf [OF wf(2), of y] assms(2,3) by auto
  note ids = id_of_insert [OF wf(1) assms(2)] id_of_insert [OF wf(2) assms(3)]
  show "id_of (jobNameTable T') x = Some j" "id_of (nodeNameTable T') y = Some n"
    using ids(1,3) by auto
  show "names_ok T' s"
    using assms(1) wf' ids(2,4) by (auto simp: names_ok_def)
qed

lemma statuses_updateStatus_wf:
  assumes "statuses_wf S" and "status_wf st" and "statuses_updateStatus ts now rt st S = Some S'"
  shows "statuses_wf S'"
proof -
  have snap: "snapshot_wf (snapshot S)" and names: "names_ok (tables S) (snapshot S)"
    using assms(1) by (auto simp: statuses_wf_def)
  from assms(3) obtain j n ret where
    upd: "updateStatus now j n rt st (snapshot S) = Some (snapshot S', ret)" and
    ins: "st_insert (rt_job rt) (jobNameTable (tables S)) = (jobNameTable (tables S'), int j)"
      "st_insert (rt_node rt) (nodeNameTable (tables S)) = (nodeNameTable (tables S'), int n)"
    using names by (elim statuses_updateStatus_snapshot) (auto simp: names_ok_def)
  have "names_ok (tables S') (snapshot S')"
    using names_ok_insert [OF names ins] updateStatus_running_entries [OF upd]
    by (auto simp: names_ok_def)
  with updateStatus_snapshot_wf(1) [OF snap assms(2) upd] show ?thesis
    by (simp add: statuses_wf_def)
qed

lemma statuses_forgiveJob_wf:
  assumes "statuses_wf S" and "statuses_forgiveJob job S = Inr (Some S')"
  shows "statuses_wf S'"
  using assms forgiveJob_wf forgiveJob_status_at(2)
  by (fastforce simp: statuses_wf_def names_ok_def statuses_forgiveJob_def Let_def split: if_splits)

text \<open>The store gives no result for a task that is running.\<close>

definition store_consistent :: "'d TaskStore \<Rightarrow> 'd TaskStatuses \<Rightarrow> bool" where
  "store_consistent ts S \<longleftrightarrow>
     (\<forall>job_names. \<forall>(job, node, r, t) \<in> set (fetchJobTasks ts (store_state S) job_names).
        job \<in> set job_names \<and> not_running_named (snapshot S) job node)"

definition config_interned :: "Config \<Rightarrow> 'd TaskStatuses \<Rightarrow> bool" where
  "config_interned config S \<longleftrightarrow>
     list_all (\<lambda>p. st_name (jobNameTable (tables S)) (int (job_id (snd p))) \<noteq> None) (jobs config)"

lemma statuses_updateForConfig_ok:
  assumes "statuses_wf S" and "config_interned config S" and "store_consistent ts S"
  obtains S' where "statuses_updateForConfig ts now config S = Some S'" "statuses_wf S'"
    "runningTasks (snapshot S') = runningTasks (snapshot S)"
    "\<forall>p \<in> set (jobs config). isJobLoaded (job_id (snd p)) (snapshot S')"
proof -
  have "\<forall>p \<in> set (jobs config). st_name (jobNameTable (tables S)) (int (job_id (snd p))) \<noteq> None"
    using assms(2) by (simp add: config_interned_def list_all_iff)
  then obtain T' s' where
    "updateForConfig now config (fetchJobTasks ts (store_state S)) (tables S, snapshot S) = Some (T', s')"
    "snapshot_wf s'" "names_ok T' s'" "runningTasks s' = runningTasks (snapshot S)"
    "\<forall>p \<in> set (jobs config). isJobLoaded (job_id (snd p)) s'"
    using assms(1,3)
    by (elim updateForConfig_total [rotated 2]) (auto simp: statuses_wf_def store_consistent_def)
  with that show thesis by (auto simp: statuses_updateForConfig_def statuses_wf_def)
qed


section \<open>Reachable states\<close>

text \<open>
  The states that any sequence of the operations reaches, in any order.  Jobs
  and nodes are interned when they are constructed; a configuration is loaded
  while the store is consistent with the running tasks.
\<close>

inductive statuses_reachable :: "'d TaskStore \<Rightarrow> 'd TaskStatuses \<Rightarrow> bool" for ts where
  init: "statuses_reachable ts
    \<lparr>snapshot = emptySnapshot, tables = \<lparr>jobNameTable = st_empty, nodeNameTable = st_empty\<rparr>,
     store_state = d\<rparr>"
| intern_job: "statuses_reachable ts S \<Longrightarrow>
    statuses_reachable ts (S\<lparr>tables := (tables S)
      \<lparr>jobNameTable := fst (st_insert name (jobNameTable (tables S)))\<rparr>\<rparr>)"
| intern_node: "statuses_reachable ts S \<Longrightarrow>
    statuses_reachable ts (S\<lparr>tables := (tables S)
      \<lparr>nodeNameTable := fst (st_insert name (nodeNameTable (tables S)))\<rparr>\<rparr>)"
| update: "statuses_reachable ts S \<Longrightarrow> status_wf st \<Longrightarrow>
    statuses_updateStatus (Some ts) now rt st S = Some S' \<Longrightarrow> statuses_reachable ts S'"
| forgive_job: "statuses_reachable ts S \<Longrightarrow>
    statuses_forgiveJob job S = Inr (Some S') \<Longrightarrow> statuses_reachable ts S'"
| load_config: "statuses_reachable ts S \<Longrightarrow> config_interned config S \<Longrightarrow> store_consistent ts S \<Longrightarrow>
    statuses_updateForConfig ts now config S = Some S' \<Longrightarrow> statuses_reachable ts S'"

lemma names_ok_intern:
  assumes "names_ok T s"
  shows "names_ok (T\<lparr>jobNameTable := fst (st_insert x (jobNameTable T))\<rparr>) s"
    and "names_ok (T\<lparr>nodeNameTable := fst (st_insert x (nodeNameTable T))\<rparr>) s"
proof -
  have wf: "st_wf (jobNameTable T)" "st_wf (nodeNameTable T)"
    using assms by (auto simp: names_ok_def)
  obtain jt ji nt ni where ins: "st_insert x (jobNameTable T) = (jt, ji)"
      "st_insert x (nodeNameTable T) = (nt, ni)" by fastforce
  note keep = id_of_insert(2) [OF wf(1) ins(1)] id_of_insert(2) [OF wf(2) ins(2)]
  have "st_wf jt" "st_wf nt"
    using st_insert_wf [OF wf(1), of x] st_insert_wf [OF wf(2), of x] ins by auto
  then show "names_ok (T\<lparr>jobNameTable := fst (st_insert x (jobNameTable T))\<rparr>) s"
    "names_ok (T\<lparr>nodeNameTable := fst (st_insert x (nodeNameTable T))\<rparr>) s"
    using assms keep by (auto simp: names_ok_def ins)
qed

lemma statuses_reachable_wf: "statuses_reachable ts S \<Longrightarrow> statuses_wf S"
proof (induction rule: statuses_reachable.induct)
  case (init d)
  show ?case by (simp add: statuses_wf_def names_ok_def) (simp add: emptySnapshot_def)
next
  case (update S st now rt S')
  then show ?case by (blast intro: statuses_updateStatus_wf)
next
  case (forgive_job S job S')
  then show ?case by (blast intro: statuses_forgiveJob_wf)
next
  case (load_config S config now S')
  then show ?case using statuses_updateForConfig_ok [of S config ts now] by auto
qed (auto simp: statuses_wf_def names_ok_intern)



section \<open>Results survive a restart\<close>

text \<open>Loading a result leaves the other tasks alone.\<close>

lemma load_result_effect:
  assumes "load_result now (job, node, r, t) (T, s) = Some (T', s')"
    and "st_wf (jobNameTable T)" and "st_wf (nodeNameTable T)"
  shows "jobNameTable T' = jobNameTable T" "st_wf (nodeNameTable T')"
    and "id_of (nodeNameTable T) y = Some k \<Longrightarrow> id_of (nodeNameTable T') y = Some k"
    and "\<exists>n. id_of (nodeNameTable T') node = Some n \<and>
      (\<forall>j. id_of (jobNameTable T) job = Some j \<longrightarrow> r = TaskResult_DONE \<longrightarrow>
        task_at s' j n = Some (status_done_at t))"
    and "id_of (jobNameTable T) job' = Some j \<Longrightarrow> id_of (nodeNameTable T) node' = Some k \<Longrightarrow>
      (job', node') \<noteq> (job, node) \<Longrightarrow> task_at s' j k = task_at s j k"
proof -
  obtain nt i where ins: "st_insert node (nodeNameTable T) = (nt, i)" by fastforce
  obtain j0 where j0: "id_of (jobNameTable T) job = Some j0"
    using assms(1) by (auto simp: load_result_def split: option.splits)
  note ids = id_of_insert [OF assms(3) ins]
  have nt_wf: "st_wf nt" using st_insert_wf [OF assms(3), of node] ins by simp
  have s': "T' = T\<lparr>nodeNameTable := nt\<rparr>"
    "s' = (if r = TaskResult_DONE then set_status j0 (nat i) (status_done_at t) (access now j0 (nat i) s)
      else if r = TaskResult_FAILED then set_status j0 (nat i) (status_failed now) (access now j0 (nat i) s)
      else access now j0 (nat i) s)"
    using assms(1) by (auto simp: load_result_def j0 ins Let_def)
  show "jobNameTable T' = jobNameTable T" "st_wf (nodeNameTable T')" using nt_wf by (simp_all add: s'(1))
  show "id_of (nodeNameTable T) y = Some k \<Longrightarrow> id_of (nodeNameTable T') y = Some k"
    using ids(2) by (simp add: s'(1))
  have "\<not> isEmpty (status_done_at t)"
    by (simp add: isEmpty_def status_factories TaskStatusBits_defs)
  with ids(1) j0 show "\<exists>n. id_of (nodeNameTable T') node = Some n \<and>
      (\<forall>j. id_of (jobNameTable T) job = Some j \<longrightarrow> r = TaskResult_DONE \<longrightarrow>
        task_at s' j n = Some (status_done_at t))"
    by (intro exI [of _ "nat i"]) (simp add: s' task_at_set_access)
  assume other: "id_of (jobNameTable T) job' = Some j" "id_of (nodeNameTable T) node' = Some k"
    "(job', node') \<noteq> (job, node)"
  have "(j, k) \<noteq> (j0, nat i)"
  proof
    assume eq: "(j, k) = (j0, nat i)"
    have "job' = job" by (rule id_of_inj [OF assms(2) other(1)]) (use j0 eq in simp)
    moreover have "node' = node"
      by (rule id_of_inj [OF nt_wf ids(2) [OF other(2)]]) (use ids(1) eq in simp)
    ultimately show False using other(3) by simp
  qed
  then show "task_at s' j k = task_at s j k" by (auto simp: s'(2) task_at_set_access)
qed

lemma load_results_frame:
  assumes "foldO (load_result now) results (T, s) = Some (T', s')"
    and "st_wf (jobNameTable T)" and "st_wf (nodeNameTable T)"
    and "id_of (jobNameTable T) job = Some j" and "id_of (nodeNameTable T) node = Some n"
    and "\<forall>(jb, nd, _) \<in> set results. (job, node) \<noteq> (jb, nd)"
  shows "jobNameTable T' = jobNameTable T \<and> id_of (nodeNameTable T') node = Some n \<and>
    task_at s' j n = task_at s j n"
  using assms
proof (induction results arbitrary: T s)
  case (Cons x xs)
  obtain jb nd r t where x: "x = (jb, nd, r, t)" by (metis surj_pair)
  from Cons.prems(1) x obtain T1 s1 where
    step: "load_result now (jb, nd, r, t) (T, s) = Some (T1, s1)"
    and rest: "foldO (load_result now) xs (T1, s1) = Some (T', s')"
    by (auto split: option.splits)
  note eff = load_result_effect [OF step Cons.prems(2,3)]
  have "(job, node) \<noteq> (jb, nd)" using Cons.prems(6) x by auto
  then have "task_at s1 j n = task_at s j n" by (rule eff(5) [OF Cons.prems(4,5)])
  moreover have "id_of (nodeNameTable T1) node = Some n" by (rule eff(3) [OF Cons.prems(5)])
  ultimately show ?case
    using Cons.IH [OF rest _ eff(2)] Cons.prems(2,4,6) eff(1) by simp
qed simp

lemma load_results_done:
  assumes "foldO (load_result now) (xs @ (job, node, TaskResult_DONE, t) # ys) (T, s) = Some (T', s')"
    and "st_wf (jobNameTable T)" and "st_wf (nodeNameTable T)"
    and "id_of (jobNameTable T) job = Some j"
    and "\<forall>(jb, nd, _) \<in> set ys. (job, node) \<noteq> (jb, nd)"
  obtains n where "id_of (nodeNameTable T') node = Some n" "task_at s' j n = Some (status_done_at t)"
  using assms
proof (induction xs arbitrary: T s thesis)
  case Nil
  from Nil.prems(2) obtain T1 s1 where
    step: "load_result now (job, node, TaskResult_DONE, t) (T, s) = Some (T1, s1)"
    and rest: "foldO (load_result now) ys (T1, s1) = Some (T', s')"
    by (auto split: option.splits)
  note eff = load_result_effect [OF step Nil.prems(3,4)]
  from eff(4) Nil.prems(5) obtain n where n: "id_of (nodeNameTable T1) node = Some n"
    "task_at s1 j n = Some (status_done_at t)" by auto
  have "id_of (nodeNameTable T') node = Some n" "task_at s' j n = task_at s1 j n"
    using load_results_frame [OF rest _ eff(2) _ n(1) Nil.prems(6)] eff(1) Nil.prems(3,5) by auto
  with n(2) show ?case by (intro Nil.prems(1)) simp_all
next
  case (Cons x xs)
  obtain jb nd r t1 where x: "x = (jb, nd, r, t1)" by (metis surj_pair)
  from Cons.prems(2) x obtain T1 s1 where
    step: "load_result now (jb, nd, r, t1) (T, s) = Some (T1, s1)"
    and rest: "foldO (load_result now) (xs @ (job, node, TaskResult_DONE, t) # ys) (T1, s1) = Some (T', s')"
    by (auto split: option.splits)
  note eff = load_result_effect(1,2) [OF step Cons.prems(3,4)]
  show ?case
    by (rule Cons.IH [OF Cons.prems(1) rest]) (use eff Cons.prems(3-6) in simp_all)
qed

lemma task_at_rows [simp]:
  "task_at (mark_loaded c s) = task_at s" "task_at (grow_rows c s) = task_at s"
  by (simp_all add: task_at_def fun_eq_iff)


lemma those_member: "those (map f xs) = Some ys \<Longrightarrow> x \<in> set xs \<Longrightarrow> f x = Some y \<Longrightarrow> y \<in> set ys"
  by (induction xs arbitrary: ys) (auto split: option.splits)

text \<open>The first configuration of a new process loads every job.\<close>

lemma updateForConfig_fresh:
  assumes "updateForConfig now config fetch (T, emptySnapshot) = Some (T', s')"
    and "p \<in> set (jobs config)" and "st_name (jobNameTable T) (int (job_id (snd p))) = Some job"
  obtains job_names s2 s3 c where "job \<in> set job_names"
    "foldO (load_result now) (fetch job_names) (T, s2) = Some (T', s3)" "s' = mark_loaded c s3"
proof -
  let ?c = "fold (\<lambda>p. List.insert (job_id (snd p))) (jobs config) []"
  let ?s2 = "grow_rows ?c (clear_rows ?c emptySnapshot)"
  have c: "job_id (snd p) \<in> set ?c" using assms(2) by (simp add: set_fold_insert)
  have unloaded: "\<not> isLoaded (rows ?s2 ! job_id (snd p))"
  proof -
    have "job_id (snd p) \<le> Max (set ?c)" "?c \<noteq> []" using c by (auto intro: Max_ge)
    moreover have "rows (clear_rows ?c emptySnapshot) = []"
      by (simp add: clear_rows_def emptySnapshot_def)
    ultimately show ?thesis by (simp add: grow_rows_def nth_grow emptyRow_def)
  qed
  from assms(1) obtain job_names s3 where
    names: "those (map (\<lambda>j. st_name (jobNameTable T) (int j))
      (filter (\<lambda>j. \<not> isLoaded (rows ?s2 ! j)) ?c)) = Some job_names"
    and load: "foldO (load_result now) (fetch job_names) (T, ?s2) = Some (T', s3)"
    and s': "s' = mark_loaded ?c s3"
    by (auto simp: updateForConfig_def emptySnapshot_def Let_def split: option.splits)
  have "job \<in> set job_names"
    by (rule those_member [OF names _ assms(3)]) (use c unloaded in simp)
  with load s' that show thesis by blast
qed

lemma sqlite_rows_unique:
  assumes "um_wf d" and "(job, node, r, t) \<in> set (sqlite_fetchJobTasks d js)"
  obtains xs ys where "sqlite_fetchJobTasks d js = xs @ (job, node, r, t) # ys"
    "\<forall>(jb, nd, _) \<in> set ys. (job, node) \<noteq> (jb, nd)"
proof -
  obtain xs ys where split: "sqlite_fetchJobTasks d js = xs @ (job, node, r, t) # ys"
    and last: "(job, node, r, t) \<notin> set ys"
    using split_list_last [OF assms(2)] by blast
  have "(job, node) \<noteq> (jb, nd)" if row: "(jb, nd, r', t') \<in> set ys" for jb nd r' t'
  proof
    assume eq: "(job, node) = (jb, nd)"
    have "(job, node, r', t') \<in> set (sqlite_fetchJobTasks d js)" using row split eq by simp
    with assms have "(r', t') = (r, t)" by (simp add: sqlite_fetch_iff sqlite_row_iff)
    with row eq last show False by simp
  qed
  then have "\<forall>(jb, nd, _) \<in> set ys. (job, node) \<noteq> (jb, nd)" by auto
  with split show thesis by (rule that)
qed

lemma recordStatusUpdate_done:
  assumes "recordStatusUpdate (Some (SQLiteTaskStore err)) now rt st d = Some d'"
    and "isDone st" and "um_wf d"
  shows "um_wf d'" and "((rt_job rt, rt_node rt), (TaskResult_DONE, now)) \<in> set d'"
proof -
  have "sqlite_store err (rt_job rt) (rt_node rt) TaskResult_DONE now d = Inr d'"
    using assms(1,2)
    by (auto simp: recordStatusUpdate_def SQLiteTaskStore_def split: sum.splits)
  then have d': "d' = AList.update (rt_job rt, rt_node rt) (TaskResult_DONE, now) d"
    by (auto simp: sqlite_store_def split: option.splits)
  show "um_wf d'" using assms(3) by (simp add: d' um_wf_update)
  then show "((rt_job rt, rt_node rt), (TaskResult_DONE, now)) \<in> set d'"
    by (simp add: sqlite_row_iff) (simp add: d' update_conv')
qed

lemma fresh_statuses_ok:
  assumes "st_wf (jobNameTable T)" and "st_wf (nodeNameTable T)"
  shows "statuses_wf \<lparr>snapshot = emptySnapshot, tables = T, store_state = d\<rparr>"
    and "store_consistent (SQLiteTaskStore err) \<lparr>snapshot = emptySnapshot, tables = T, store_state = d\<rparr>"
  using assms
  by (auto simp: statuses_wf_def names_ok_def store_consistent_def not_running_named_def
      SQLiteTaskStore_def sqlite_fetch_iff) (auto simp: emptySnapshot_def)

lemma isDone_done_at: "isDone (status_done_at t)"
  by (simp add: status_tests status_factories status_bits)

lemma done_survives_restart:
  assumes upd: "statuses_updateStatus (Some (SQLiteTaskStore err)) now rt st S = Some S'"
    and wf: "statuses_wf S" "um_wf (store_state S)"
    and task: "id_of (jobNameTable (tables S')) (rt_job rt) = Some j"
      "id_of (nodeNameTable (tables S')) (rt_node rt) = Some n"
    and "task_at (snapshot S') j n = Some x" "isDone x"
    and T: "st_wf (jobNameTable T)" "st_wf (nodeNameTable T)"
    and config: "config_interned config
        \<lparr>snapshot = emptySnapshot, tables = T, store_state = store_state S'\<rparr>"
      "p \<in> set (jobs config)" "id_of (jobNameTable T) (rt_job rt) = Some (job_id (snd p))"
  obtains S'' k y where
    "statuses_updateForConfig (SQLiteTaskStore err) now' config
       \<lparr>snapshot = emptySnapshot, tables = T, store_state = store_state S'\<rparr> = Some S''"
    "id_of (nodeNameTable (tables S'')) (rt_node rt) = Some k"
    "task_at (snapshot S'') (job_id (snd p)) k = Some y" "isDone y"
proof -
  have names: "names_ok (tables S) (snapshot S)" using wf(1) by (simp add: statuses_wf_def)
  from upd obtain j' n' ret where
    snap: "updateStatus now j' n' rt st (snapshot S) = Some (snapshot S', ret)" and
    ins: "st_insert (rt_job rt) (jobNameTable (tables S)) = (jobNameTable (tables S'), int j')"
      "st_insert (rt_node rt) (nodeNameTable (tables S)) = (nodeNameTable (tables S'), int n')" and
    rec: "recordStatusUpdate (Some (SQLiteTaskStore err)) now rt ret (store_state S) = Some (store_state S')"
    using names by (elim statuses_updateStatus_snapshot) (auto simp: names_ok_def)
  have "j' = j" "n' = n" using names_ok_insert(2,3) [OF names ins] task by auto
  with updateStatus_ret [OF snap] assms(6) have "ret = x"
    by (simp add: task_at_def split: if_splits)
  note stored = recordStatusUpdate_done [OF rec _ wf(2), unfolded \<open>ret = x\<close>, OF assms(7)]
  let ?S = "\<lparr>snapshot = emptySnapshot, tables = T, store_state = store_state S'\<rparr>"
  obtain S'' where S'': "statuses_updateForConfig (SQLiteTaskStore err) now' config ?S = Some S''"
    by (rule statuses_updateForConfig_ok
        [OF fresh_statuses_ok(1) [OF T] config(1) fresh_statuses_ok(2) [OF T]])
  then have load: "updateForConfig now' config (sqlite_fetchJobTasks (store_state S')) (T, emptySnapshot) =
      Some (tables S'', snapshot S'')"
    by (auto simp: statuses_updateForConfig_def SQLiteTaskStore_def)
  obtain job_names s2 s3 c where
    fresh: "rt_job rt \<in> set job_names"
      "foldO (load_result now') (sqlite_fetchJobTasks (store_state S') job_names) (T, s2) =
        Some (tables S'', s3)" "snapshot S'' = mark_loaded c s3"
    by (rule updateForConfig_fresh [OF load config(2) id_of_name [OF T(1), THEN iffD1, OF config(3)]])
  have row: "(rt_job rt, rt_node rt, TaskResult_DONE, now) \<in>
      set (sqlite_fetchJobTasks (store_state S') job_names)"
    using stored(2) fresh(1) by (simp add: sqlite_fetch_iff)
  obtain xs ys where
    split: "sqlite_fetchJobTasks (store_state S') job_names =
        xs @ (rt_job rt, rt_node rt, TaskResult_DONE, now) # ys"
      "\<forall>(jb, nd, _) \<in> set ys. (rt_job rt, rt_node rt) \<noteq> (jb, nd)"
    by (rule sqlite_rows_unique [OF stored(1) row])
  obtain k where "id_of (nodeNameTable (tables S'')) (rt_node rt) = Some k"
    "task_at s3 (job_id (snd p)) k = Some (status_done_at now)"
    by (rule load_results_done [OF fresh(2) [unfolded split(1)] T config(3) split(2)])
  then show thesis
    by (intro that [OF S'', of k "status_done_at now"]) (simp_all add: fresh(3) isDone_done_at)
qed


section \<open>Properties\<close>


definition example_task :: RunningTask where
  "example_task =
     \<lparr>rt_job = ''job'', rt_node = ''node'', nodeResources = [], workerShard = ''w'',
      invocationID = \<lparr>startTime = 1, rand = 2\<rparr>,
      nextBackoffDuration = \<lparr>noMoreBackoffs = False, seconds = 15\<rparr>,
      workerSuicideTaskKillWaitMs = 0\<rparr>"

definition example_statuses :: "SqlTable TaskStatuses" where
  "example_statuses =
     \<lparr>snapshot = \<lparr>rows = [\<lparr>isLoaded = False, row_statuses = [status_running 5]\<rparr>],
                   runningTasks = [((0, 0), example_task)]\<rparr>,
      tables = \<lparr>jobNameTable = \<lparr>objToIndex = [(''job'', 0)], objects = [''job'']\<rparr>,
                 nodeNameTable = \<lparr>objToIndex = [(''node'', 0)], objects = [''node'']\<rparr>\<rparr>,
      store_state = []\<rparr>"

lemma example_statuses_reachable:
  "statuses_reachable (SQLiteTaskStore (\<lambda>_. None)) example_statuses"
proof -
  let ?S0 = "\<lparr>snapshot = emptySnapshot,
      tables = \<lparr>jobNameTable = st_empty, nodeNameTable = st_empty\<rparr>,
      store_state = [] :: SqlTable\<rparr>"
  have "statuses_updateStatus (Some (SQLiteTaskStore (\<lambda>_. None))) 4 example_task (status_running 5) ?S0 =
      Some example_statuses"
    by (simp add: statuses_updateStatus_def statuses_updateStatus_ids_def updateStatus_def access_def
        example_statuses_def example_task_def emptySnapshot_def st_empty_def st_insert_def Let_def
        status_ref_def grow_def emptyRow_def set_status_def status_update_def recordStatusUpdate_def
        status_factories status_tests status_bits)
  then show ?thesis
    using statuses_reachable.init factories_wf(1) by (rule statuses_reachable.update [rotated 2])
qed







definition example_job :: "nat \<Rightarrow> string \<Rightarrow> nat list \<Rightarrow> Job" where
  "example_job i name deps =
     \<lparr>job_id = i, job_name = name, job_enabled = True, levelForTasks = 0, priority = 1,
      job_resources = [], job_filters = [emptyJobFilters],
      levelForHostPlacement = NotFound, hostPlacement = [],
      backoffSettings = \<lparr>backoff_values = [15], backoff_repeat = False\<rparr>, dependsOn = deps,
      killOrphanTasksAfter = None, command = [], job_errors = DObject []\<rparr>"

definition example_config :: "Job list \<Rightarrow> Config" where
  "example_config js =
     \<lparr>config_enabled = True, levels = st_init [''instance'', ''worker''],
      jobs = map (\<lambda>j. (job_name j, j)) js, schedulerPolicyName = ''roundrobin'',
      remoteWorkerSelectorType = RoundRobin, nodeOrderType = Original,
      defaultJobResources = [], resourceIDToWeight = [], resourcesByLevel = [[], []],
      levelIDToResourceID = [[], []], resourceNames = st_empty,
      exitInitialWaitBeforeTimestamp = 0, workerResourcesOverride = []\<rparr>"




text \<open>C14: a task whose status is done after an update with the SQLite store is done
  again after a restart: the first configuration that a new process loads from
  the same store, with the job configured, marks the task as done.\<close>

theorem done_task_survives_restart:
  assumes "statuses_updateStatus (Some (SQLiteTaskStore err)) now rt st S = Some S'"
    and "statuses_wf S" and "um_wf (store_state S)"
    and "id_of (jobNameTable (tables S')) (rt_job rt) = Some j"
    and "id_of (nodeNameTable (tables S')) (rt_node rt) = Some n"
    and "task_at (snapshot S') j n = Some x" and "isDone x"
    and "st_wf (jobNameTable T)" and "st_wf (nodeNameTable T)"
    and "config_interned config
        \<lparr>snapshot = emptySnapshot, tables = T, store_state = store_state S'\<rparr>"
    and "p \<in> set (jobs config)" and "id_of (jobNameTable T) (rt_job rt) = Some (job_id (snd p))"
  shows "\<exists>S'' k y. statuses_updateForConfig (SQLiteTaskStore err) now' config
       \<lparr>snapshot = emptySnapshot, tables = T, store_state = store_state S'\<rparr> = Some S'' \<and>
     id_of (nodeNameTable (tables S'')) (rt_node rt) = Some k \<and>
     task_at (snapshot S'') (job_id (snd p)) k = Some y \<and> isDone y"
proof -
  obtain S'' k y where "statuses_updateForConfig (SQLiteTaskStore err) now' config
       \<lparr>snapshot = emptySnapshot, tables = T, store_state = store_state S'\<rparr> = Some S''"
    "id_of (nodeNameTable (tables S'')) (rt_node rt) = Some k"
    "task_at (snapshot S'') (job_id (snd p)) k = Some y" "isDone y"
    by (rule done_survives_restart [OF assms])
  then show ?thesis by blast
qed

theorem done_task_survives_restart_witness:
  "\<exists>S' S'' k y. statuses_updateStatus (Some (SQLiteTaskStore (\<lambda>_. None))) 8 example_task (status_done 8)
       example_statuses = Some S' \<and>
     statuses_updateForConfig (SQLiteTaskStore (\<lambda>_. None)) 20 (example_config [example_job 0 ''job'' []])
       \<lparr>snapshot = emptySnapshot,
        tables = \<lparr>jobNameTable = \<lparr>objToIndex = [(''job'', 0)], objects = [''job'']\<rparr>,
                  nodeNameTable = st_empty\<rparr>, store_state = store_state S'\<rparr> = Some S'' \<and>
     task_at (snapshot S'') 0 k = Some y \<and> isDone y"
proof -
  let ?T = "\<lparr>jobNameTable = \<lparr>objToIndex = [(''job'', 0)], objects = [''job'']\<rparr>,
      nodeNameTable = st_empty\<rparr>"
  let ?S' = "example_statuses\<lparr>
      snapshot := \<lparr>rows = [\<lparr>isLoaded = False, row_statuses = [status_done 8]\<rparr>], runningTasks = []\<rparr>,
      store_state := [((''job'', ''node''), (TaskResult_DONE, 8))]\<rparr>"
  let ?p = "(''job'', example_job 0 ''job'' [])"
  have upd: "statuses_updateStatus (Some (SQLiteTaskStore (\<lambda>_. None))) 8 example_task (status_done 8)
      example_statuses = Some ?S'"
    by (simp add: statuses_updateStatus_def statuses_updateStatus_ids_def updateStatus_def access_def
        example_statuses_def example_task_def st_insert_def status_ref_def grow_def set_status_def
        status_update_def recordStatusUpdate_def SQLiteTaskStore_def sqlite_store_def
        status_factories status_tests status_bits Let_def)
  have wf: "statuses_wf example_statuses" by (rule statuses_reachable_wf [OF example_statuses_reachable])
  have "\<exists>S'' k y. statuses_updateForConfig (SQLiteTaskStore (\<lambda>_. None)) 20
        (example_config [example_job 0 ''job'' []])
        \<lparr>snapshot = emptySnapshot, tables = ?T, store_state = store_state ?S'\<rparr> = Some S'' \<and>
      id_of (nodeNameTable (tables S'')) (rt_node example_task) = Some k \<and>
      task_at (snapshot S'') (job_id (snd ?p)) k = Some y \<and> isDone y"
    by (rule done_task_survives_restart [OF upd wf, where j = 0 and n = 0 and x = "status_done 8"])
      (simp_all add: example_statuses_def example_task_def example_config_def example_job_def
        config_interned_def id_of_def st_lookup_def st_name_def NotFound_def task_at_def status_at_def
        status_ref_def st_wf_def st_empty_def status_factories status_tests TaskStatusBits_defs
        allSet_def)
  with upd show ?thesis by (auto simp: example_job_def)
qed

end
