(* ===== verification/Scheduler_Policies.thy ===== *)
theory Scheduler_Policies
  imports Task_Statuses "HOL-Library.Multiset"
begin

text \<open>
  \<^verbatim>\<open>scheduler/SchedulerPolicy\<close>, \<^verbatim>\<open>scheduler/utils\<close>, the four scheduling policies
  and their registry.  A policy offers tasks, pairs of a job and a node, to the
  callback that runs them, as long as the resources of the node and of all its
  ancestors allow it.  The contract of a policy is the locale
  \<open>scheduler_policy\<close>: whatever order it chooses, it makes the offers of its input,
  each once, and stops only where the callback asks for it.
\<close>

section \<open>Model\<close>

datatype TaskRunnerResponse = RanTask | DidNotRunTask | DoNotRunMoreTasks

text \<open>
  The resources of the nodes of a group (a level), concatenated; and the
  position of each node in the concatenation.  The latter is the mutable
  field \<^verbatim>\<open>Node::offset\<close>.  Nodes of one group with the same name share it, so it
  is a map from the level and the name; a node without an entry has the
  initial value of the field, which is out of range.
\<close>

type_synonym PackedResources = "int list"
type_synonym NodeGroupToPackedResources = "(nat \<times> PackedResources) list"
type_synonym NodeOffsets = "((nat \<times> string) \<times> nat) list"

text \<open>The pointer \<^verbatim>\<open>nodes_\<close> into the map of packed resources is the key of the entry.\<close>

record NodeGroupResources =
  ngr_job :: PackedResources
  ngr_nodes :: nat

record JobWithNodes =
  jwn_job :: Job
  nodeGroupToResources :: "(nat \<times> NodeGroupResources) list"
  jwn_nodes :: "Node list"

text \<open>
  The constructor.  The map of packed resources has the keys below its size, so
  that taking the address of an entry does not insert one; \<open>None\<close> is an access
  outside the vectors of the configuration or of the job.
\<close>

definition mkJobWithNodes :: "Config \<Rightarrow> Job \<Rightarrow> NodeGroupToPackedResources \<Rightarrow> JobWithNodes option" where
  "mkJobWithNodes cfg j packed =
     map_option (\<lambda>rs. \<lparr>jwn_job = j, nodeGroupToResources = rs, jwn_nodes = []\<rparr>)
       (those (map (\<lambda>ngid.
          if map_of packed ngid = None \<or> ngid \<ge> length (levelIDToResourceID cfg) then None
          else map_option (\<lambda>amounts. (ngid, \<lparr>ngr_job = amounts, ngr_nodes = ngid\<rparr>))
            (those (map (\<lambda>rid.
               if rid < length (job_resources j) then Some (job_resources j ! rid) else None)
               (levelIDToResourceID cfg ! ngid))))
          [0..<length packed]))"

definition node_offset :: "NodeOffsets \<Rightarrow> Node \<Rightarrow> nat option" where
  "node_offset offs n = map_of offs (node_level n, node_name n)"

text \<open>
  The first loop of \<^verbatim>\<open>try_to_schedule\<close>, on one ancestor and on all of them.  The
  result \<open>None\<close> is a failed \<^verbatim>\<open>CHECK\<close> or a missing group, \<open>Some None\<close> the early return
  for lack of a resource, and \<open>Some (Some updates)\<close> the list of pointers, here
  pairs of a group and an index, with the amounts to subtract.
\<close>

definition node_updates ::
  "NodeOffsets \<Rightarrow> JobWithNodes \<Rightarrow> NodeGroupToPackedResources \<Rightarrow> Node \<Rightarrow>
   ((nat \<times> nat) \<times> int) list option option" where
  "node_updates offs jwn P node =
     (case map_of (nodeGroupToResources jwn) (node_level node) of
        None \<Rightarrow> None
      | Some r \<Rightarrow>
          (case (node_offset offs node, map_of P (ngr_nodes r)) of
             (Some off, Some v) \<Rightarrow>
               if length v < off + length (ngr_job r) then None
               else if list_ex (\<lambda>i. ngr_job r ! i > v ! (off + i)) [0..<length (ngr_job r)]
               then Some None
               else Some (Some (map (\<lambda>i. ((ngr_nodes r, off + i), ngr_job r ! i))
                      [0..<length (ngr_job r)]))
           | _ \<Rightarrow> None))"

fun chain_updates ::
  "NodeOffsets \<Rightarrow> JobWithNodes \<Rightarrow> NodeGroupToPackedResources \<Rightarrow> Node list \<Rightarrow>
   ((nat \<times> nat) \<times> int) list option option" where
  "chain_updates offs jwn P [] = Some (Some [])"
| "chain_updates offs jwn P (n # ns) =
     (case node_updates offs jwn P n of
        Some (Some us) \<Rightarrow>
          (case chain_updates offs jwn P ns of
             Some (Some us') \<Rightarrow> Some (Some (us @ us'))
           | other \<Rightarrow> other)
      | other \<Rightarrow> other)"

text \<open>The second loop, which subtracts the amounts once the task was run.\<close>

definition slot :: "NodeGroupToPackedResources \<Rightarrow> nat \<times> nat \<Rightarrow> int option" where
  "slot P s =
     (case map_of P (fst s) of
        Some v \<Rightarrow> if snd s < length v then Some (v ! snd s) else None
      | None \<Rightarrow> None)"

definition slot_set :: "nat \<times> nat \<Rightarrow> int \<Rightarrow> NodeGroupToPackedResources \<Rightarrow> NodeGroupToPackedResources" where
  "slot_set s a P =
     (case map_of P (fst s) of Some v \<Rightarrow> AList.update (fst s) (v[snd s := a]) P | None \<Rightarrow> P)"

definition subtract_update ::
  "(nat \<times> nat) \<times> int \<Rightarrow> NodeGroupToPackedResources \<Rightarrow> NodeGroupToPackedResources option" where
  "subtract_update u P =
     (case slot P (fst u) of
        None \<Rightarrow> None
      | Some a \<Rightarrow> if a \<ge> snd u then Some (slot_set (fst u) (a - snd u) P) else None)"

text \<open>
  The callback runs a task and may change the state \<open>'r\<close> of the runner.  The
  scheduler's state is the pair of the packed resources and the runner's state.
\<close>

type_synonym 'r TaskRunnerCallback = "Job \<Rightarrow> Node \<Rightarrow> 'r \<Rightarrow> (TaskRunnerResponse \<times> 'r) option"
type_synonym 'r sched_state = "NodeGroupToPackedResources \<times> 'r"

definition try_to_schedule ::
  "NodeOffsets \<Rightarrow> 'r TaskRunnerCallback \<Rightarrow> Node \<Rightarrow> JobWithNodes \<Rightarrow> 'r sched_state \<Rightarrow>
   (TaskRunnerResponse \<times> 'r sched_state) option" where
  "try_to_schedule offs cb task_node jwn st =
     (case chain_updates offs jwn (fst st) (traverseUp task_node) of
        None \<Rightarrow> None
      | Some None \<Rightarrow> Some (DidNotRunTask, st)
      | Some (Some updates) \<Rightarrow>
          (case cb (jwn_job jwn) task_node (snd st) of
             None \<Rightarrow> None
           | Some (ret, r) \<Rightarrow>
               if ret = RanTask then
                 map_option (\<lambda>P. (ret, (P, r))) (foldO subtract_update updates (fst st))
               else Some (ret, (fst st, r))))"

text \<open>
  The result of a loop whose body may leave the function, and the loops over
  the nodes of one job.  The policies take nodes from the back of the vector, so
  the loops run over the reversed list.  The pair that they update holds
  \<^verbatim>\<open>scheduled_tasks\<close> and the state.
\<close>

datatype ('a, 'b) Flow = Return 'a | Next 'b

text \<open>The inner loop of \<^verbatim>\<open>RoundRobinSchedulerPolicy\<close>: it breaks once a task was run.\<close>

fun schedule_one ::
  "NodeOffsets \<Rightarrow> 'r TaskRunnerCallback \<Rightarrow> JobWithNodes \<Rightarrow> Node list \<Rightarrow> nat \<times> 'r sched_state \<Rightarrow>
   (nat \<times> 'r sched_state, Node list \<times> nat \<times> 'r sched_state) Flow option" where
  "schedule_one offs cb jwn [] s = Some (Next ([], s))"
| "schedule_one offs cb jwn (n # ns) s =
     (case try_to_schedule offs cb n jwn (snd s) of
        None \<Rightarrow> None
      | Some (RanTask, st) \<Rightarrow> Some (Next (ns, (fst s + 1, st)))
      | Some (DoNotRunMoreTasks, st) \<Rightarrow> Some (Return (fst s, st))
      | Some (DidNotRunTask, st) \<Rightarrow> schedule_one offs cb jwn ns (fst s, st))"

text \<open>
  The \<^verbatim>\<open>for\<close> loop of \<^verbatim>\<open>RoundRobinSchedulerPolicy\<close>, which erases the jobs without
  nodes, and its \<^verbatim>\<open>while\<close> loop.
\<close>

fun round_robin_pass ::
  "NodeOffsets \<Rightarrow> 'r TaskRunnerCallback \<Rightarrow> JobWithNodes list \<Rightarrow> nat \<times> 'r sched_state \<Rightarrow>
   (nat \<times> 'r sched_state, JobWithNodes list \<times> nat \<times> 'r sched_state) Flow option" where
  "round_robin_pass offs cb [] s = Some (Next ([], s))"
| "round_robin_pass offs cb (j # js) s =
     (if jwn_nodes j = [] then round_robin_pass offs cb js s
      else
        (case schedule_one offs cb j (rev (jwn_nodes j)) s of
           None \<Rightarrow> None
         | Some (Return s') \<Rightarrow> Some (Return s')
         | Some (Next (ns, s')) \<Rightarrow>
             (case round_robin_pass offs cb js s' of
                Some (Next (js', s'')) \<Rightarrow> Some (Next (j\<lparr>jwn_nodes := rev ns\<rparr> # js', s''))
              | other \<Rightarrow> other)))"

text \<open>What bounds the loops: the jobs and nodes that are left.\<close>

definition work_left :: "JobWithNodes list \<Rightarrow> nat" where
  "work_left js = sum_list (map (\<lambda>j. Suc (length (jwn_nodes j))) js)"

lemma schedule_one_shortens:
  "schedule_one offs cb jwn ns s = Some (Next (ns', s')) \<Longrightarrow>
     length ns' \<le> length ns - 1"
  by (induction ns arbitrary: s)
    (fastforce split: option.splits prod.splits TaskRunnerResponse.splits)+

lemma round_robin_pass_shortens:
  "round_robin_pass offs cb js s = Some (Next (js', s')) \<Longrightarrow>
     work_left js' + length js \<le> work_left js"
proof (induction js arbitrary: s js')
  case Nil
  then show ?case by simp
next
  case (Cons j js)
  show ?case
  proof (cases "jwn_nodes j = []")
    case True
    with Cons.prems Cons.IH [of s js'] show ?thesis by (simp add: work_left_def)
  next
    case False
    with Cons.prems obtain ns s1 js1 where
      1: "schedule_one offs cb j (rev (jwn_nodes j)) s = Some (Next (ns, s1))" and
      2: "round_robin_pass offs cb js s1 = Some (Next (js1, s'))" and
      3: "js' = j\<lparr>jwn_nodes := rev ns\<rparr> # js1"
      by (auto split: option.splits Flow.splits)
    from schedule_one_shortens [OF 1] False have "Suc (length ns) \<le> length (jwn_nodes j)"
      by (cases "jwn_nodes j") auto
    with Cons.IH [OF 2] 3 show ?thesis by (simp add: work_left_def)
  qed
qed

function (sequential) round_robin_schedule ::
  "NodeOffsets \<Rightarrow> 'r TaskRunnerCallback \<Rightarrow> JobWithNodes list \<Rightarrow> nat \<times> 'r sched_state \<Rightarrow>
   (nat \<times> 'r sched_state) option" where
  "round_robin_schedule offs cb [] s = Some s"
| "round_robin_schedule offs cb (j # js) s =
     (case round_robin_pass offs cb (j # js) s of
        None \<Rightarrow> None
      | Some (Return s') \<Rightarrow> Some s'
      | Some (Next (js', s')) \<Rightarrow> round_robin_schedule offs cb js' s')"
  by pat_completeness auto

termination
  by (relation "measure (\<lambda>(offs, cb, js, s). work_left js)")
    (auto simp del: round_robin_pass.simps dest!: round_robin_pass_shortens)

text \<open>
  The loops of \<^verbatim>\<open>RankedPrioritySchedulerPolicy\<close>, which \<^verbatim>\<open>LongTailSchedulerPolicy\<close>
  repeats word for word.  \<^verbatim>\<open>std::sort\<close> leaves the order of equal elements open; the
  policies receive the jobs in an arbitrary order, so that the stable sort of an
  arbitrary list has all the outcomes that \<^verbatim>\<open>std::sort\<close> may have.
\<close>

fun schedule_all ::
  "NodeOffsets \<Rightarrow> 'r TaskRunnerCallback \<Rightarrow> JobWithNodes \<Rightarrow> Node list \<Rightarrow> nat \<times> 'r sched_state \<Rightarrow>
   (nat \<times> 'r sched_state, nat \<times> 'r sched_state) Flow option" where
  "schedule_all offs cb jwn [] s = Some (Next s)"
| "schedule_all offs cb jwn (n # ns) s =
     (case try_to_schedule offs cb n jwn (snd s) of
        None \<Rightarrow> None
      | Some (RanTask, st) \<Rightarrow> schedule_all offs cb jwn ns (fst s + 1, st)
      | Some (DoNotRunMoreTasks, st) \<Rightarrow> Some (Return (fst s, st))
      | Some (DidNotRunTask, st) \<Rightarrow> schedule_all offs cb jwn ns (fst s, st))"

fun in_order_loop ::
  "NodeOffsets \<Rightarrow> 'r TaskRunnerCallback \<Rightarrow> JobWithNodes list \<Rightarrow> nat \<times> 'r sched_state \<Rightarrow>
   (nat \<times> 'r sched_state) option" where
  "in_order_loop offs cb [] s = Some s"
| "in_order_loop offs cb (j # js) s =
     (if jwn_nodes j = [] then in_order_loop offs cb js s
      else
        (case schedule_all offs cb j (rev (jwn_nodes j)) s of
           None \<Rightarrow> None
         | Some (Return s') \<Rightarrow> Some s'
         | Some (Next s') \<Rightarrow> in_order_loop offs cb js s'))"

definition ranked_priority_schedule ::
  "NodeOffsets \<Rightarrow> 'r TaskRunnerCallback \<Rightarrow> JobWithNodes list \<Rightarrow> 'r sched_state \<Rightarrow>
   (nat \<times> 'r sched_state) option" where
  "ranked_priority_schedule offs cb js st =
     in_order_loop offs cb (sort_key (\<lambda>j. - priority (jwn_job j)) js) (0, st)"

definition long_tail_schedule ::
  "NodeOffsets \<Rightarrow> 'r TaskRunnerCallback \<Rightarrow> JobWithNodes list \<Rightarrow> 'r sched_state \<Rightarrow>
   (nat \<times> 'r sched_state) option" where
  "long_tail_schedule offs cb js st =
     in_order_loop offs cb (sort_key (\<lambda>j. length (jwn_nodes j)) js) (0, st)"

text \<open>
  \<^verbatim>\<open>RandomizedPrioritySchedulerPolicy\<close>.  The \<open>i\<close>-th draw of the random generator,
  from the distribution with the given weights, is \<open>draw i weights\<close>.  An index
  out of range is undefined.
\<close>

definition job_picker_pick :: "(nat \<Rightarrow> rat list \<Rightarrow> nat) \<Rightarrow> nat \<Rightarrow> JobWithNodes list \<Rightarrow> nat" where
  "job_picker_pick draw i js = draw i (map (\<lambda>j. priority (jwn_job j)) js)"

lemma work_left_simps [simp]:
  "work_left [] = 0"
  "work_left (j # js) = Suc (length (jwn_nodes j)) + work_left js"
  "work_left (js @ js') = work_left js + work_left js'"
  by (simp_all add: work_left_def)

lemma work_left_split:
  assumes "k < length js"
  shows "work_left js = work_left (take k js) + work_left [js ! k] + work_left (drop (Suc k) js)"
  by (subst id_take_nth_drop [OF assms]) simp

lemma work_left_remove:
  "k < length js \<Longrightarrow> work_left (take k js @ drop (Suc k) js) < work_left js"
  using work_left_split [of k js] by simp

lemma work_left_update:
  assumes "k < length js" and "length ns < length (jwn_nodes (js ! k))"
  shows "work_left (js[k := (js ! k)\<lparr>jwn_nodes := rev ns\<rparr>]) < work_left js"
  using assms work_left_split [of k js] by (simp add: upd_conv_take_nth_drop)

function (sequential) randomized_priority_loop ::
  "(nat \<Rightarrow> rat list \<Rightarrow> nat) \<Rightarrow> NodeOffsets \<Rightarrow> 'r TaskRunnerCallback \<Rightarrow> nat \<Rightarrow>
   JobWithNodes list \<Rightarrow> nat \<times> 'r sched_state \<Rightarrow> (nat \<times> 'r sched_state) option" where
  "randomized_priority_loop draw offs cb i [] s = Some s"
| "randomized_priority_loop draw offs cb i (j # js) s =
     (let jobs = j # js; job_idx = job_picker_pick draw i jobs in
      if job_idx \<ge> length jobs then None
      else
        let jwn = jobs ! job_idx in
        if jwn_nodes jwn = [] then
          randomized_priority_loop draw offs cb (Suc i) (take job_idx jobs @ drop (Suc job_idx) jobs) s
        else
          (case schedule_one offs cb jwn (rev (jwn_nodes jwn)) s of
             None \<Rightarrow> None
           | Some (Return s') \<Rightarrow> Some s'
           | Some (Next (ns, s')) \<Rightarrow>
               randomized_priority_loop draw offs cb (Suc i)
                 (jobs[job_idx := jwn\<lparr>jwn_nodes := rev ns\<rparr>]) s'))"
  by pat_completeness auto

termination
proof (relation "measure (\<lambda>(draw, offs, cb, i, js, s). work_left js)", goal_cases)
  case 1
  show ?case by simp
next
  case (2 draw offs cb i j js s jobs job_idx jwn)
  then show ?case using work_left_remove [of job_idx jobs] by simp
next
  case (3 draw offs cb i j js s jobs job_idx jwn a b ns s')
  then have "length ns < length (jwn_nodes jwn)"
    using schedule_one_shortens [of offs cb jwn "rev (jwn_nodes jwn)" s ns s']
    by (cases "jwn_nodes jwn") auto
  with 3 work_left_update [of job_idx jobs ns] show ?case
    by (simp del: list_update.simps)
qed

definition randomized_priority_schedule ::
  "(nat \<Rightarrow> rat list \<Rightarrow> nat) \<Rightarrow> NodeOffsets \<Rightarrow> 'r TaskRunnerCallback \<Rightarrow> JobWithNodes list \<Rightarrow>
   'r sched_state \<Rightarrow> (nat \<times> 'r sched_state) option" where
  "randomized_priority_schedule draw offs cb js st =
     randomized_priority_loop draw offs cb 0 js (0, st)"


section \<open>Registry\<close>

text \<open>
  The policies by name.  A policy is applied to the sources of its
  nondeterminism, here the random draws, to the offsets, the callback, the jobs
  and the state.  \<open>UnitTestSchedulerPolicy\<close> calls a function that a test has
  installed, which is a parameter.
\<close>

type_synonym 'r policy =
  "NodeOffsets \<Rightarrow> 'r TaskRunnerCallback \<Rightarrow> JobWithNodes list \<Rightarrow> 'r sched_state \<Rightarrow>
   (nat \<times> 'r sched_state) option"

definition registerSchedulerPolicy ::
  "string \<Rightarrow> 'r policy \<Rightarrow> (string \<times> 'r policy) list \<Rightarrow> (string \<times> 'r policy) list option" where
  "registerSchedulerPolicy name policy policies =
     (case um_emplace policies name policy of (ps, True) \<Rightarrow> Some ps | _ \<Rightarrow> None)"

definition findPolicyOrThrow :: "(string \<times> 'r policy) list \<Rightarrow> string \<Rightarrow> string + 'r policy" where
  "findPolicyOrThrow policies name =
     (case map_of policies name of
        None \<Rightarrow> Inl (''scheduler policy '' @ name @ '' is not registered'')
      | Some p \<Rightarrow> Inr p)"

definition throwUnlessPolicyNameExists :: "(string \<times> 'r policy) list \<Rightarrow> string \<Rightarrow> string + unit" where
  "throwUnlessPolicyNameExists policies name = bindR (findPolicyOrThrow policies name) (\<lambda>_. Inr ())"

definition getSchedulerPolicy :: "(string \<times> 'r policy) list \<Rightarrow> string \<Rightarrow> string + 'r policy" where
  "getSchedulerPolicy policies name = findPolicyOrThrow policies name"

definition round_robin_policy :: "'r policy" where
  "round_robin_policy offs cb js st = round_robin_schedule offs cb js (0, st)"

definition registerDefaultSchedulerPolicies ::
  "(nat \<Rightarrow> rat list \<Rightarrow> nat) \<Rightarrow> 'r policy \<Rightarrow> (string \<times> 'r policy) list \<Rightarrow>
   (string \<times> 'r policy) list option" where
  "registerDefaultSchedulerPolicies draw unit_test policies =
     foldO (\<lambda>(name, policy). registerSchedulerPolicy name policy)
       [(''unittest'', unit_test),
        (''roundrobin'', round_robin_policy),
        (''ranked_priority'', ranked_priority_schedule),
        (''randomized_priority'', randomized_priority_schedule draw),
        (''long_tail'', long_tail_schedule)] policies"


section \<open>Offers in sequence\<close>

text \<open>
  What every policy does, whatever its order: it offers a sequence of tasks,
  until the callback asks it to stop.  The result says whether it was stopped,
  which offers were run, and the final state.
\<close>

type_synonym offer = "JobWithNodes \<times> Node"

fun offer_run ::
  "NodeOffsets \<Rightarrow> 'r TaskRunnerCallback \<Rightarrow> offer list \<Rightarrow> 'r sched_state \<Rightarrow>
   (bool \<times> offer list \<times> 'r sched_state) option" where
  "offer_run offs cb [] st = Some (False, [], st)"
| "offer_run offs cb ((j, n) # os) st =
     (case try_to_schedule offs cb n j st of
        None \<Rightarrow> None
      | Some (RanTask, st') \<Rightarrow>
          map_option (\<lambda>(b, ts, st''). (b, (j, n) # ts, st'')) (offer_run offs cb os st')
      | Some (DidNotRunTask, st') \<Rightarrow> offer_run offs cb os st'
      | Some (DoNotRunMoreTasks, st') \<Rightarrow> Some (True, [], st'))"

text \<open>The offers of a job, and of a list of jobs; the nodes come from the back.\<close>

definition job_offers :: "JobWithNodes \<Rightarrow> Node list \<Rightarrow> offer list" where
  "job_offers j ns = map (Pair (j\<lparr>jwn_nodes := []\<rparr>)) ns"

definition all_offers :: "JobWithNodes list \<Rightarrow> offer list" where
  "all_offers js = concat (map (\<lambda>j. job_offers j (rev (jwn_nodes j))) js)"

lemma all_offers_simps [simp]:
  "all_offers [] = []"
  "all_offers (j # js) = job_offers j (rev (jwn_nodes j)) @ all_offers js"
  "all_offers (js @ js') = all_offers js @ all_offers js'"
  by (simp_all add: all_offers_def)

lemma job_offers_simps [simp]:
  "job_offers j [] = []"
  "job_offers j (n # ns) = (j\<lparr>jwn_nodes := []\<rparr>, n) # job_offers j ns"
  "job_offers j (ns @ ns') = job_offers j ns @ job_offers j ns'"
  "job_offers (j\<lparr>jwn_nodes := x\<rparr>) ns = job_offers j ns"
  by (simp_all add: job_offers_def)

lemma try_to_schedule_nodes [simp]:
  "try_to_schedule offs cb n (j\<lparr>jwn_nodes := x\<rparr>) st = try_to_schedule offs cb n j st"
proof -
  have "node_updates offs (j\<lparr>jwn_nodes := x\<rparr>) P m = node_updates offs j P m" for P m
    by (simp add: node_updates_def)
  then have "chain_updates offs (j\<lparr>jwn_nodes := x\<rparr>) P ms = chain_updates offs j P ms" for P ms
    by (induction ms) (simp_all split: option.split)
  then show ?thesis by (simp add: try_to_schedule_def split: option.split)
qed

lemma offer_run_append:
  "offer_run offs cb (xs @ ys) st =
     (case offer_run offs cb xs st of
        None \<Rightarrow> None
      | Some (True, ts, st') \<Rightarrow> Some (True, ts, st')
      | Some (False, ts, st') \<Rightarrow>
          map_option (\<lambda>(b, ts', st''). (b, ts @ ts', st'')) (offer_run offs cb ys st'))"
proof (induction xs arbitrary: st)
  case Nil
  then show ?case by (simp add: case_prod_unfold option.map_ident)
next
  case (Cons o1 os)
  then show ?case
    by (cases o1; cases "try_to_schedule offs cb (snd o1) (fst o1) st")
      (auto split: option.split TaskRunnerResponse.split bool.split
        simp: option.map_comp comp_def case_prod_unfold)
qed

text \<open>The loops of the policies, as sequences of offers.\<close>

lemma schedule_all_offers:
  "schedule_all offs cb j ns (k, st) =
     map_option (\<lambda>(b, ts, st'). (if b then Return else Next) (k + length ts, st'))
       (offer_run offs cb (job_offers j ns) st)"
  by (induction ns arbitrary: k st)
    (auto split: option.splits prod.splits TaskRunnerResponse.splits
      simp: option.map_comp comp_def case_prod_unfold)

lemma in_order_loop_offers:
  "in_order_loop offs cb js (k, st) =
     map_option (\<lambda>(b, ts, st'). (k + length ts, st')) (offer_run offs cb (all_offers js) st)"
  by (induction js arbitrary: k st)
    (auto simp: schedule_all_offers offer_run_append option.map_comp comp_def case_prod_unfold add.assoc
      split: option.splits bool.splits)

text \<open>
  The result of a loop that breaks, related to the offers it made: some
  offers were made (\<open>pre\<close>), the others remain.
\<close>

definition made_offers ::
  "NodeOffsets \<Rightarrow> 'r TaskRunnerCallback \<Rightarrow> nat \<times> 'r sched_state \<Rightarrow> offer list \<Rightarrow>
   (nat \<times> 'r sched_state, nat \<times> 'r sched_state) Flow option \<Rightarrow> bool" where
  "made_offers offs cb s pre result \<longleftrightarrow>
     (case result of
        None \<Rightarrow> offer_run offs cb pre (snd s) = None
      | Some (Return s') \<Rightarrow>
          (\<exists>ts. offer_run offs cb pre (snd s) = Some (True, ts, snd s') \<and> fst s' = fst s + length ts)
      | Some (Next s') \<Rightarrow>
          (\<exists>ts. offer_run offs cb pre (snd s) = Some (False, ts, snd s') \<and> fst s' = fst s + length ts))"

lemma made_offers_None: "made_offers offs cb s pre None \<Longrightarrow> offer_run offs cb (pre @ rest) (snd s) = None"
  by (simp add: made_offers_def offer_run_append)

lemma made_offers_Return:
  "made_offers offs cb s pre (Some (Return s')) \<Longrightarrow>
     made_offers offs cb s (pre @ rest) (Some (Return s'))"
  by (auto simp: made_offers_def offer_run_append)

lemma made_offers_Next:
  assumes "made_offers offs cb s pre (Some (Next s'))" and "made_offers offs cb s' pre' result"
  shows "made_offers offs cb s (pre @ pre') result"
  using assms
  by (auto simp: made_offers_def offer_run_append split: option.splits Flow.splits)

lemma schedule_one_offers:
  "\<exists>pre rest. ns = pre @ rest \<and>
     (case schedule_one offs cb j ns s of
        None \<Rightarrow> made_offers offs cb s (job_offers j pre) None
      | Some (Return s') \<Rightarrow> made_offers offs cb s (job_offers j pre) (Some (Return s'))
      | Some (Next (ns', s')) \<Rightarrow>
          ns' = rest \<and> made_offers offs cb s (job_offers j pre) (Some (Next s')))"
proof (induction ns arbitrary: s)
  case Nil
  then show ?case by (simp add: made_offers_def)
next
  case (Cons n ns)
  show ?case
  proof (cases "try_to_schedule offs cb n j (snd s)")
    case None
    then show ?thesis
      by (intro exI [of _ "[n]"] exI [of _ ns]) (simp add: made_offers_def)
  next
    case (Some a)
    then obtain ret st where t: "try_to_schedule offs cb n j (snd s) = Some (ret, st)"
      by (cases a) auto
    show ?thesis
    proof (cases "ret = DidNotRunTask")
      case True
      from Cons.IH [of "(fst s, st)"] obtain pre rest where "ns = pre @ rest" and
        IH: "case schedule_one offs cb j ns (fst s, st) of
            None \<Rightarrow> made_offers offs cb (fst s, st) (job_offers j pre) None
          | Some (Return s') \<Rightarrow> made_offers offs cb (fst s, st) (job_offers j pre) (Some (Return s'))
          | Some (Next (ns', s')) \<Rightarrow>
              ns' = rest \<and> made_offers offs cb (fst s, st) (job_offers j pre) (Some (Next s'))"
        by blast
      with t True show ?thesis
        by (intro exI [of _ "n # pre"] exI [of _ rest])
          (auto simp: made_offers_def split: option.splits Flow.splits)
    next
      case False
      with t show ?thesis
        by (intro exI [of _ "[n]"] exI [of _ ns], cases ret) (auto simp: made_offers_def)
    qed
  qed
qed


text \<open>
  A run over jobs realizes its offers if it is a sequence of them in some order;
  a part of such a run covers some of them and leaves jobs with the others.
\<close>

definition realizes ::
  "NodeOffsets \<Rightarrow> 'r TaskRunnerCallback \<Rightarrow> JobWithNodes list \<Rightarrow> nat \<times> 'r sched_state \<Rightarrow>
   (nat \<times> 'r sched_state) option \<Rightarrow> bool" where
  "realizes offs cb js s result \<longleftrightarrow>
     (\<exists>order. mset order = mset (all_offers js) \<and>
        result = map_option (\<lambda>(b, ts, st). (fst s + length ts, st)) (offer_run offs cb order (snd s)))"

definition covers ::
  "NodeOffsets \<Rightarrow> 'r TaskRunnerCallback \<Rightarrow> JobWithNodes list \<Rightarrow> nat \<times> 'r sched_state \<Rightarrow>
   (nat \<times> 'r sched_state, JobWithNodes list \<times> nat \<times> 'r sched_state) Flow option \<Rightarrow> bool" where
  "covers offs cb js s result \<longleftrightarrow>
     (\<exists>pre rest. mset (all_offers js) = mset pre + mset rest \<and>
        (case result of
           None \<Rightarrow> made_offers offs cb s pre None
         | Some (Return s') \<Rightarrow> made_offers offs cb s pre (Some (Return s'))
         | Some (Next (js', s')) \<Rightarrow>
             made_offers offs cb s pre (Some (Next s')) \<and> mset rest = mset (all_offers js')))"

lemma realizes_Nil [simp]: "realizes offs cb [] s (Some s)"
  by (cases s) (auto simp: realizes_def)

lemma covers_None:
  assumes "covers offs cb js s None"
  shows "realizes offs cb js s None"
proof -
  from assms obtain pre rest where "mset (all_offers js) = mset (pre @ rest)"
    and "made_offers offs cb s pre None"
    by (auto simp: covers_def)
  with made_offers_None [of offs cb s pre rest] show ?thesis
    unfolding realizes_def by (intro exI [of _ "pre @ rest"]) simp
qed

lemma covers_Return:
  assumes "covers offs cb js s (Some (Return s'))"
  shows "realizes offs cb js s (Some s')"
proof -
  from assms obtain pre rest where "mset (all_offers js) = mset (pre @ rest)"
    and "made_offers offs cb s pre (Some (Return s'))"
    by (auto simp: covers_def)
  with made_offers_Return [of offs cb s pre s' rest] show ?thesis
    unfolding realizes_def
    by (intro exI [of _ "pre @ rest"]) (cases s', auto simp: made_offers_def)
qed

lemma covers_Next:
  assumes "covers offs cb js s (Some (Next (js', s')))" and "realizes offs cb js' s' result"
  shows "realizes offs cb js s result"
proof -
  from assms(1) obtain pre where pre: "mset (all_offers js) = mset pre + mset (all_offers js')"
    and made: "made_offers offs cb s pre (Some (Next s'))"
    by (auto simp: covers_def)
  from assms(2) obtain order where "mset order = mset (all_offers js')"
    and "result = map_option (\<lambda>(b, ts, st). (fst s' + length ts, st)) (offer_run offs cb order (snd s'))"
    by (auto simp: realizes_def)
  with pre made show ?thesis
    unfolding realizes_def
    by (intro exI [of _ "pre @ order"])
      (auto simp: made_offers_def offer_run_append option.map_comp comp_def case_prod_unfold add.assoc)
qed

text \<open>One job: the rule for the loops that break.\<close>

lemma covers_schedule_one:
  assumes "j = js ! k" and "k < length js"
  shows "covers offs cb js s
    (case schedule_one offs cb j (rev (jwn_nodes j)) s of
       None \<Rightarrow> None
     | Some (Return s') \<Rightarrow> Some (Return s')
     | Some (Next (ns, s')) \<Rightarrow> Some (Next (js[k := j\<lparr>jwn_nodes := rev ns\<rparr>], s')))"
proof -
  obtain pre rest where split: "rev (jwn_nodes j) = pre @ rest" and
    run: "case schedule_one offs cb j (rev (jwn_nodes j)) s of
        None \<Rightarrow> made_offers offs cb s (job_offers j pre) None
      | Some (Return s') \<Rightarrow> made_offers offs cb s (job_offers j pre) (Some (Return s'))
      | Some (Next (ns', s')) \<Rightarrow>
          ns' = rest \<and> made_offers offs cb s (job_offers j pre) (Some (Next s'))"
    using schedule_one_offers [where ns = "rev (jwn_nodes j)" and offs = offs and cb = cb and j = j and s = s]
    by blast
  let ?others = "all_offers (take k js) @ all_offers (drop (Suc k) js)"
  have "mset (all_offers js) = mset (job_offers j pre) + mset (job_offers j rest @ ?others)"
    using assms split by (subst id_take_nth_drop [of k js]) (simp_all add: ac_simps)
  moreover have "mset (job_offers j rest @ ?others) =
      mset (all_offers (js[k := j\<lparr>jwn_nodes := rev rest\<rparr>]))"
    using assms by (simp add: upd_conv_take_nth_drop)
  ultimately show ?thesis
    using run unfolding covers_def
    by (intro exI [of _ "job_offers j pre"] exI [of _ "job_offers j rest @ ?others"])
      (auto split: option.splits Flow.splits)
qed


lemma covers_Cons:
  assumes "covers offs cb (j # js) s (Some (Next (j' # js, s')))" and "covers offs cb js s' result"
  shows "covers offs cb (j # js) s
    (case result of Some (Next (js', s'')) \<Rightarrow> Some (Next (j' # js', s'')) | other \<Rightarrow> other)"
proof -
  from assms(1) obtain pre where pre: "mset (all_offers (j # js)) = mset pre + mset (all_offers (j' # js))"
    and made: "made_offers offs cb s pre (Some (Next s'))"
    by (auto simp: covers_def)
  from assms(2) obtain pre' rest where "mset (all_offers js) = mset pre' + mset rest" and
    "case result of
       None \<Rightarrow> made_offers offs cb s' pre' None
     | Some (Return s'') \<Rightarrow> made_offers offs cb s' pre' (Some (Return s''))
     | Some (Next (js', s'')) \<Rightarrow>
         made_offers offs cb s' pre' (Some (Next s'')) \<and> mset rest = mset (all_offers js')"
    unfolding covers_def by blast
  with pre made_offers_Next [OF made] show ?thesis
    unfolding covers_def
    by (intro exI [of _ "pre @ pre'"] exI [of _ "job_offers j' (rev (jwn_nodes j')) @ rest"])
      (auto split: option.splits Flow.splits)
qed

lemma covers_empty_job:
  assumes "jwn_nodes j = []"
  shows "covers offs cb (j # js) s result \<longleftrightarrow> covers offs cb js s result"
  using assms by (simp add: covers_def)

lemma round_robin_pass_covers: "covers offs cb js s (round_robin_pass offs cb js s)"
proof (induction js arbitrary: s)
  case Nil
  then show ?case by (auto simp: covers_def made_offers_def)
next
  case (Cons j js)
  show ?case
  proof (cases "jwn_nodes j = []")
    case True
    with Cons show ?thesis by (simp add: covers_empty_job)
  next
    case False
    note one = covers_schedule_one [of j "j # js" 0 offs cb s, simplified]
    show ?thesis
    proof (cases "schedule_one offs cb j (rev (jwn_nodes j)) s")
      case None
      with one False show ?thesis by simp
    next
      case (Some f)
      show ?thesis
      proof (cases f)
        case (Return s')
        with Some one False show ?thesis by simp
      next
        case (Next r)
        with Some one
        have "covers offs cb (j # js) s (Some (Next (j\<lparr>jwn_nodes := rev (fst r)\<rparr> # js, snd r)))"
          by (simp add: case_prod_unfold)
        from covers_Cons [OF this Cons.IH] Some Next False show ?thesis
          by (simp add: case_prod_unfold)
      qed
    qed
  qed
qed

lemma round_robin_realizes: "realizes offs cb js s (round_robin_schedule offs cb js s)"
proof (induction offs cb js s rule: round_robin_schedule.induct)
  case (1 offs cb s)
  show ?case by simp
next
  case (2 offs cb j js s)
  note pass = round_robin_pass_covers [of offs cb "j # js" s]
  show ?case
  proof (cases "round_robin_pass offs cb (j # js) s")
    case None
    with pass show ?thesis by (simp del: round_robin_pass.simps add: covers_None)
  next
    case (Some f)
    with pass 2 [OF Some] show ?thesis
      by (cases f) (auto simp del: round_robin_pass.simps intro: covers_Return covers_Next)
  qed
qed


text \<open>The random policy: unless a draw is out of range.\<close>

definition draws_in_range :: "(nat \<Rightarrow> rat list \<Rightarrow> nat) \<Rightarrow> bool" where
  "draws_in_range draw \<longleftrightarrow> (\<forall>i ws. ws \<noteq> [] \<longrightarrow> draw i ws < length ws)"

lemma randomized_priority_realizes:
  "(\<not> draws_in_range draw \<and> randomized_priority_loop draw offs cb i js s = None) \<or>
   realizes offs cb js s (randomized_priority_loop draw offs cb i js s)"
proof (induction draw offs cb i js s rule: randomized_priority_loop.induct)
  case (1 draw offs cb i s)
  show ?case by simp
next
  case (2 draw offs cb i j js s)
  define jobs where "jobs = j # js"
  define k where "k = job_picker_pick draw i jobs"
  note unfold = randomized_priority_loop.simps(2) [of draw offs cb i j js s,
      folded jobs_def, unfolded Let_def, folded k_def]
  have ne: "jobs \<noteq> []" by (simp add: jobs_def)
  show ?case
  proof (cases "k < length jobs")
    case False
    let ?ws = "map (\<lambda>j. priority (jwn_job j)) jobs"
    from False ne have "?ws \<noteq> []" and "\<not> draw i ?ws < length ?ws"
      by (simp_all add: k_def job_picker_pick_def)
    then have "\<not> draws_in_range draw" unfolding draws_in_range_def by blast
    with False show ?thesis by (simp add: unfold flip: jobs_def)
  next
    case k: True
    note IH = "2.IH" [OF jobs_def k_def _ refl, folded jobs_def, simplified]
    show ?thesis
    proof (cases "jwn_nodes (jobs ! k) = []")
      case True
      let ?rest = "take k jobs @ drop (Suc k) jobs"
      have "all_offers jobs = all_offers ?rest"
        using True by (subst id_take_nth_drop [OF k]) simp
      then have "covers offs cb jobs s (Some (Next (?rest, s)))"
        unfolding covers_def
        by (intro exI [of _ "[]"] exI [of _ "all_offers ?rest"]) (simp add: made_offers_def)
      with k True IH(1) show ?thesis
        by (auto simp: unfold simp flip: jobs_def intro: covers_Next)
    next
      case False
      note one = covers_schedule_one [OF refl k, of offs cb s]
      show ?thesis
      proof (cases "schedule_one offs cb (jobs ! k) (rev (jwn_nodes (jobs ! k))) s")
        case None
        with one k False show ?thesis by (simp add: unfold covers_None flip: jobs_def)
      next
        case (Some f)
        show ?thesis
        proof (cases f)
          case (Return s')
          with Some one k False show ?thesis
            by (simp add: unfold covers_Return flip: jobs_def)
        next
          case (Next r)
          with Some one k False IH(2) [of "Next r" r] show ?thesis
            by (cases r) (auto simp: unfold simp flip: jobs_def intro: covers_Next)
        qed
      qed
    qed
  qed
qed



section \<open>Resources\<close>

text \<open>What a task takes from a slot of the packed resources.\<close>

definition node_requirement :: "NodeOffsets \<Rightarrow> JobWithNodes \<Rightarrow> nat \<times> nat \<Rightarrow> Node \<Rightarrow> int" where
  "node_requirement offs jwn s m =
     (case (map_of (nodeGroupToResources jwn) (node_level m), node_offset offs m) of
        (Some r, Some off) \<Rightarrow>
          if fst s = ngr_nodes r \<and> off \<le> snd s \<and> snd s < off + length (ngr_job r)
          then ngr_job r ! (snd s - off) else 0
      | _ \<Rightarrow> 0)"

definition requirement :: "NodeOffsets \<Rightarrow> nat \<times> nat \<Rightarrow> offer \<Rightarrow> int" where
  "requirement offs s jn = sum_list (map (node_requirement offs (fst jn) s) (traverseUp (snd jn)))"

text \<open>The task does not fit: the early return of \<^verbatim>\<open>try_to_schedule\<close>.\<close>

definition unfit :: "NodeOffsets \<Rightarrow> NodeGroupToPackedResources \<Rightarrow> offer \<Rightarrow> bool" where
  "unfit offs P jn \<longleftrightarrow> chain_updates offs (fst jn) P (traverseUp (snd jn)) = Some None"

definition updates_at :: "nat \<times> nat \<Rightarrow> ((nat \<times> nat) \<times> int) list \<Rightarrow> int" where
  "updates_at s us = sum_list (map snd (filter (\<lambda>u. fst u = s) us))"

lemma updates_at_simps [simp]:
  "updates_at s [] = 0"
  "updates_at s (u # us) = (if fst u = s then snd u else 0) + updates_at s us"
  "updates_at s (us @ us') = updates_at s us + updates_at s us'"
  by (simp_all add: updates_at_def)

lemma slot_slot_set:
  "slot P s = Some a \<Longrightarrow> slot (slot_set s b P) s' = (if s' = s then Some b else slot P s')"
  by (cases s; cases s')
    (auto simp: slot_def slot_set_def update_conv' nth_list_update split: option.splits if_splits)

lemma subtract_update_Some:
  "subtract_update u P = Some P' \<longleftrightarrow>
     (\<exists>a. slot P (fst u) = Some a \<and> snd u \<le> a \<and> P' = slot_set (fst u) (a - snd u) P)"
  by (auto simp: subtract_update_def split: option.splits)

lemma subtract_updates_slot:
  assumes "foldO subtract_update us P = Some P'"
  shows "slot P' s = map_option (\<lambda>a. a - updates_at s us) (slot P s)"
    and "slot P s = Some a \<Longrightarrow> 0 \<le> a \<Longrightarrow> 0 \<le> a - updates_at s us"
  using assms
proof (induction us arbitrary: P a)
  case Nil
  {
    case 1
    with Nil show ?case by (simp add: option.map_ident)
  next
    case 2
    with Nil show ?case by simp
  }
next
  case (Cons u us)
  {
    case 1
    then obtain b where b: "slot P (fst u) = Some b" "snd u \<le> b"
      and rec: "foldO subtract_update us (slot_set (fst u) (b - snd u) P) = Some P'"
      by (auto simp: subtract_update_Some split: option.splits)
    from Cons.IH(1) [OF rec] b show ?case
      by (auto simp: slot_slot_set split: option.splits)
  next
    case 2
    then obtain b where b: "slot P (fst u) = Some b" "snd u \<le> b"
      and rec: "foldO subtract_update us (slot_set (fst u) (b - snd u) P) = Some P'"
      by (auto simp: subtract_update_Some split: option.splits)
    from Cons.IH(2) [OF _ _ rec, of "if fst u = s then b - snd u else a"] b 2 show ?case
      by (auto simp: slot_slot_set split: if_splits)
  }
qed


lemma updates_at_map_upt:
  "updates_at s (map (\<lambda>i. ((g, off + i), v ! i)) [0..<length v]) =
     (if fst s = g \<and> off \<le> snd s \<and> snd s < off + length v then v ! (snd s - off) else 0)"
proof (induction v rule: rev_induct)
  case Nil
  then show ?case by simp
next
  case (snoc x v)
  have "map (\<lambda>i. ((g, off + i), (v @ [x]) ! i)) [0..<length (v @ [x])] =
      map (\<lambda>i. ((g, off + i), v ! i)) [0..<length v] @ [((g, off + length v), x)]"
    by (auto simp: nth_append)
  then show ?case
    by (simp only: updates_at_simps snoc.IH) (cases s, auto simp: nth_append)
qed

lemma node_updates_at:
  "node_updates offs jwn P m = Some (Some us) \<Longrightarrow> updates_at s us = node_requirement offs jwn s m"
  by (auto simp: node_updates_def node_requirement_def updates_at_map_upt
      split: option.splits if_splits)

lemma chain_updates_at:
  "chain_updates offs jwn P ms = Some (Some us) \<Longrightarrow>
     updates_at s us = sum_list (map (node_requirement offs jwn s) ms)"
proof (induction ms arbitrary: us)
  case Nil
  then show ?case by simp
next
  case (Cons m ms)
  then obtain us1 us2 where "node_updates offs jwn P m = Some (Some us1)"
    and "chain_updates offs jwn P ms = Some (Some us2)" and "us = us1 @ us2"
    by (auto split: option.splits)
  with Cons.IH show ?case by (simp add: node_updates_at)
qed

text \<open>The three outcomes of an attempt.\<close>

lemma try_to_schedule_cases:
  assumes "try_to_schedule offs cb n j (P, r) = Some (ret, (P', r'))"
  obtains (unfit) "unfit offs P (j, n)" "ret = DidNotRunTask" "P' = P" "r' = r"
  | (refused) "cb (jwn_job j) n r = Some (ret, r')" "ret \<noteq> RanTask" "P' = P"
  | (ran) us where "cb (jwn_job j) n r = Some (RanTask, r')" "ret = RanTask"
      "chain_updates offs j P (traverseUp n) = Some (Some us)"
      "foldO subtract_update us P = Some P'"
  using assms
  by (auto simp: try_to_schedule_def unfit_def split: option.splits if_splits)

lemma try_to_schedule_ran:
  assumes "try_to_schedule offs cb n j (P, r) = Some (RanTask, (P', r'))"
  shows "slot P' s = map_option (\<lambda>a. a - requirement offs s (j, n)) (slot P s)"
    and "slot P s = Some a \<Longrightarrow> 0 \<le> a \<Longrightarrow> 0 \<le> a - requirement offs s (j, n)"
proof -
  from assms obtain us where us: "chain_updates offs j P (traverseUp n) = Some (Some us)"
    "foldO subtract_update us P = Some P'"
    by (cases rule: try_to_schedule_cases) auto
  have req: "requirement offs s (j, n) = updates_at s us"
    by (simp add: requirement_def chain_updates_at [OF us(1)])
  show "slot P' s = map_option (\<lambda>a. a - requirement offs s (j, n)) (slot P s)"
    unfolding req by (rule subtract_updates_slot(1) [OF us(2)])
  show "slot P s = Some a \<Longrightarrow> 0 \<le> a \<Longrightarrow> 0 \<le> a - requirement offs s (j, n)"
    unfolding req by (rule subtract_updates_slot(2) [OF us(2)])
qed

definition requirements :: "NodeOffsets \<Rightarrow> nat \<times> nat \<Rightarrow> offer list \<Rightarrow> int" where
  "requirements offs s ts = sum_list (map (requirement offs s) ts)"


lemma requirements_simps [simp]:
  "requirements offs s [] = 0"
  "requirements offs s (t # ts) = requirement offs s t + requirements offs s ts"
  by (simp_all add: requirements_def)

text \<open>The rule for a sequence of offers, with the step made explicit.\<close>

lemma offer_run_Cons_cases:
  assumes "offer_run offs cb ((j, n) # os) (P, r) = Some (b, ts, st)"
  obtains (ran) P' r' ts' where "try_to_schedule offs cb n j (P, r) = Some (RanTask, (P', r'))"
      "offer_run offs cb os (P', r') = Some (b, ts', st)" "ts = (j, n) # ts'"
  | (did_not) P' r' where "try_to_schedule offs cb n j (P, r) = Some (DidNotRunTask, (P', r'))"
      "offer_run offs cb os (P', r') = Some (b, ts, st)"
  | (stop) P' r' where "try_to_schedule offs cb n j (P, r) = Some (DoNotRunMoreTasks, (P', r'))"
      "b" "ts = []" "st = (P', r')"
  using assms by (auto split: option.splits TaskRunnerResponse.splits)

lemma try_to_schedule_not_ran:
  assumes "try_to_schedule offs cb n j (P, r) = Some (ret, (P', r'))" and "ret \<noteq> RanTask"
  shows "P' = P"
  using assms by (cases rule: try_to_schedule_cases) auto

lemma offer_run_slot:
  assumes "offer_run offs cb os (P, r) = Some (b, ts, (P', r'))"
  shows "slot P' s = map_option (\<lambda>a. a - requirements offs s ts) (slot P s)"
    and "slot P s = Some a \<Longrightarrow> 0 \<le> a \<Longrightarrow> 0 \<le> a - requirements offs s ts"
  using assms
proof (induction os arbitrary: P r ts a)
  case Nil
  {
    case 1
    then show ?case by (simp add: option.map_ident)
  next
    case 2
    then show ?case by simp
  }
next
  case (Cons jn os)
  obtain j n where jn: "jn = (j, n)" by (cases jn)
  {
    case 1
    then show ?case
      unfolding jn
    proof (cases rule: offer_run_Cons_cases)
      case (ran P1 r1 ts1)
      from Cons.IH(1) [OF ran(2)] try_to_schedule_ran(1) [OF ran(1)] ran(3) show ?thesis
        by (simp add: option.map_comp comp_def diff_diff_eq)
    next
      case (did_not P1 r1)
      with Cons.IH(1) [OF did_not(2)] try_to_schedule_not_ran [OF did_not(1)] show ?thesis by simp
    next
      case (stop P1 r1)
      with try_to_schedule_not_ran [OF stop(1)] show ?thesis by (simp add: option.map_ident)
    qed
  next
    case 2
    from 2(3) show ?case
      unfolding jn
    proof (cases rule: offer_run_Cons_cases)
      case (ran P1 r1 ts1)
      from Cons.IH(2) [OF _ _ ran(2)] try_to_schedule_ran [OF ran(1)] ran(3) 2 show ?thesis
        by (fastforce simp: diff_diff_eq)
    next
      case (did_not P1 r1)
      with Cons.IH(2) [OF _ _ did_not(2)] try_to_schedule_not_ran [OF did_not(1)] 2 show ?thesis
        by simp
    next
      case (stop P1 r1)
      with 2 show ?thesis by simp
    qed
  }
qed


text \<open>
  Resources that only shrink: a task that does not fit once, never fits again.
\<close>

definition shrinks :: "NodeGroupToPackedResources \<Rightarrow> NodeGroupToPackedResources \<Rightarrow> bool" where
  "shrinks P P' \<longleftrightarrow> (\<forall>g. rel_option (list_all2 (\<ge>)) (map_of P g) (map_of P' g))"

definition needs_nonneg :: "JobWithNodes \<Rightarrow> bool" where
  "needs_nonneg j \<longleftrightarrow> (\<forall>(g, r) \<in> set (nodeGroupToResources j). \<forall>a \<in> set (ngr_job r). 0 \<le> a)"

lemma needs_nonneg_nodes [simp]: "needs_nonneg (j\<lparr>jwn_nodes := x\<rparr>) = needs_nonneg j"
  by (simp add: needs_nonneg_def)

lemma shrinks_refl [simp]: "shrinks P P"
  by (auto simp: shrinks_def list_all2_same option.rel_refl)

lemma shrinks_trans:
  assumes "shrinks P Q" and "shrinks Q R"
  shows "shrinks P R"
proof -
  have "rel_option (list_all2 (\<ge>)) (map_of P g) (map_of R g)" for g
    using assms [unfolded shrinks_def, THEN spec [of _ g]]
    by (auto simp: option_rel_Some1 option_rel_Some2 option.rel_sel
        intro: list_all2_trans [of "(\<ge>)" "(\<ge>)"])
  then show ?thesis by (simp add: shrinks_def)
qed

lemma subtract_update_shrinks:
  assumes "subtract_update u P = Some P'" and "0 \<le> snd u"
  shows "shrinks P P'"
  using assms
  by (auto simp: subtract_update_Some shrinks_def slot_def slot_set_def update_conv' option.rel_refl
      list_all2_same list_all2_conv_all_nth nth_list_update option.rel_sel split: option.splits if_splits)

lemma subtract_updates_shrinks:
  assumes "foldO subtract_update us P = Some P'" and "\<forall>u \<in> set us. 0 \<le> snd u"
  shows "shrinks P P'"
  using assms(1)
  by (rule foldO_invariant [where I = "shrinks P"])
    (use assms(2) subtract_update_shrinks shrinks_trans in auto)

lemma node_updates_nonneg:
  assumes "node_updates offs j P m = Some (Some us)" and "needs_nonneg j"
  shows "\<forall>u \<in> set us. 0 \<le> snd u"
  using assms
  by (fastforce simp: node_updates_def needs_nonneg_def dest: map_of_SomeD
      split: option.splits if_splits)

lemma chain_updates_nonneg:
  assumes "chain_updates offs j P ms = Some (Some us)" and "needs_nonneg j"
  shows "\<forall>u \<in> set us. 0 \<le> snd u"
  using assms(1)
proof (induction ms arbitrary: us)
  case (Cons m ms)
  then obtain us1 us2 where "node_updates offs j P m = Some (Some us1)"
    and "chain_updates offs j P ms = Some (Some us2)" and "us = us1 @ us2"
    by (auto split: option.splits)
  with Cons.IH node_updates_nonneg [OF _ assms(2)] show ?case by fastforce
qed simp

lemma node_updates_shrinks:
  assumes "shrinks P P'" and "node_updates offs j P m = Some x"
  shows "node_updates offs j P' m = Some x \<or> node_updates offs j P' m = Some None"
    and "x = None \<Longrightarrow> node_updates offs j P' m = Some None"
proof -
  from assms(2) obtain r off v where r: "map_of (nodeGroupToResources j) (node_level m) = Some r"
    "node_offset offs m = Some off" "map_of P (ngr_nodes r) = Some v"
    and len: "off + length (ngr_job r) \<le> length v"
    by (auto simp: node_updates_def split: option.splits if_splits)
  with assms(1) obtain v' where v': "map_of P' (ngr_nodes r) = Some v'" "list_all2 (\<ge>) v v'"
    unfolding shrinks_def by (metis option_rel_Some1)
  then have len': "length v' = length v" and le: "\<And>i. i < length v \<Longrightarrow> v' ! i \<le> v ! i"
    by (auto simp: list_all2_conv_all_nth)
  have lack: "list_ex (\<lambda>i. v' ! (off + i) < ngr_job r ! i) [0..<length (ngr_job r)]"
    if "list_ex (\<lambda>i. v ! (off + i) < ngr_job r ! i) [0..<length (ngr_job r)]"
  proof -
    from that obtain i where i: "i < length (ngr_job r)" "v ! (off + i) < ngr_job r ! i"
      by (auto simp: list_ex_iff)
    with le [of "off + i"] len have "v' ! (off + i) < ngr_job r ! i" by simp
    with i(1) show ?thesis by (auto simp: list_ex_iff)
  qed
  have P': "node_updates offs j P' m =
      (if list_ex (\<lambda>i. v' ! (off + i) < ngr_job r ! i) [0..<length (ngr_job r)] then Some None
       else Some (Some (map (\<lambda>i. ((ngr_nodes r, off + i), ngr_job r ! i)) [0..<length (ngr_job r)])))"
    using r v'(1) len len' by (simp add: node_updates_def)
  have P: "x = (if list_ex (\<lambda>i. v ! (off + i) < ngr_job r ! i) [0..<length (ngr_job r)] then None
       else Some (map (\<lambda>i. ((ngr_nodes r, off + i), ngr_job r ! i)) [0..<length (ngr_job r)]))"
    using assms(2) r len by (simp add: node_updates_def split: if_splits)
  show "node_updates offs j P' m = Some x \<or> node_updates offs j P' m = Some None"
    using lack unfolding P P' by simp
  show "x = None \<Longrightarrow> node_updates offs j P' m = Some None"
    using lack unfolding P P' by (simp split: if_splits)
qed

lemma chain_updates_shrinks:
  assumes "shrinks P P'" and "chain_updates offs j P ms = Some None"
  shows "chain_updates offs j P' ms = Some None"
  using assms(2)
proof (induction ms)
  case (Cons m ms)
  then obtain x where x: "node_updates offs j P m = Some x" by (auto split: option.splits)
  note sh = node_updates_shrinks [OF assms(1) x]
  from Cons x sh show ?case by (cases x) (auto split: option.splits)
qed simp


lemma try_to_schedule_shrinks:
  assumes "try_to_schedule offs cb n j (P, r) = Some (ret, (P', r'))" and "needs_nonneg j"
  shows "shrinks P P'"
  using assms(1)
proof (cases rule: try_to_schedule_cases)
  case (ran us)
  with subtract_updates_shrinks [OF ran(4)] chain_updates_nonneg [OF ran(3) assms(2)]
  show ?thesis by simp
qed simp_all

definition refused :: "'r TaskRunnerCallback \<Rightarrow> offer \<Rightarrow> bool" where
  "refused cb jn \<longleftrightarrow> (\<exists>r r'. cb (jwn_job (fst jn)) (snd jn) r = Some (DidNotRunTask, r'))"

definition told_to_stop :: "'r TaskRunnerCallback \<Rightarrow> offer \<Rightarrow> bool" where
  "told_to_stop cb jn \<longleftrightarrow> (\<exists>r r'. cb (jwn_job (fst jn)) (snd jn) r = Some (DoNotRunMoreTasks, r'))"

lemma offer_run_complete:
  assumes "offer_run offs cb os (P, r) = Some (b, ts, (P', r'))"
    and "\<forall>jn \<in> set os. needs_nonneg (fst jn)"
  shows "shrinks P P'"
    and "\<not> b \<Longrightarrow> \<forall>jn \<in> set os. jn \<in> set ts \<or> unfit offs P' jn \<or> refused cb jn"
    and "b \<Longrightarrow> \<exists>jn \<in> set os. told_to_stop cb jn"
  using assms
proof (atomize (full), induction os arbitrary: P r ts)
  case Nil
  then show ?case by auto
next
  case (Cons jn os)
  obtain j n where jn: "jn = (j, n)" by (cases jn)
  from Cons.prems have rest: "\<forall>jn \<in> set os. needs_nonneg (fst jn)" and nn: "needs_nonneg j"
    by (auto simp: jn)
  from Cons.prems(1) [unfolded jn] show ?case
  proof (cases rule: offer_run_Cons_cases)
    case (ran P1 r1 ts1)
    from Cons.IH [OF ran(2) rest] try_to_schedule_shrinks [OF ran(1) nn] ran(3) show ?thesis
      by (auto simp: jn intro: shrinks_trans)
  next
    case (did_not P1 r1)
    then have "P1 = P" by (simp add: try_to_schedule_not_ran)
    from did_not(1) have "unfit offs P (j, n) \<or> refused cb (j, n)"
      by (cases rule: try_to_schedule_cases) (auto simp: refused_def)
    with Cons.IH [OF did_not(2) rest] \<open>P1 = P\<close> show ?thesis
      by (auto simp: jn unfit_def dest: chain_updates_shrinks)
  next
    case (stop P1 r1)
    then have "told_to_stop cb (j, n)" "P1 = P"
      by (auto simp: told_to_stop_def elim!: try_to_schedule_cases)
    with stop show ?thesis by (auto simp: jn)
  qed
qed

lemma offer_run_subset:
  "offer_run offs cb os st = Some (b, ts, st') \<Longrightarrow> mset ts \<subseteq># mset os"
proof (induction os arbitrary: st ts)
  case (Cons jn os)
  obtain j n P r where jn: "jn = (j, n)" "st = (P, r)" by (cases jn, cases st)
  from Cons.prems [unfolded jn] show ?case
  proof (cases rule: offer_run_Cons_cases)
    case (ran P1 r1 ts1)
    with Cons.IH [OF ran(2)] show ?thesis by (simp add: jn)
  next
    case (did_not P1 r1)
    show ?thesis by (rule subset_mset.order_trans [OF Cons.IH [OF did_not(2)]]) simp
  qed simp
qed simp


section \<open>Attempts that do not abort\<close>

text \<open>
  The ancestors of the node are of distinct groups, and each has its place in
  the packed resources of its group.
\<close>

definition node_placed :: "NodeOffsets \<Rightarrow> NodeGroupToPackedResources \<Rightarrow> JobWithNodes \<Rightarrow> Node \<Rightarrow> bool" where
  "node_placed offs P j m \<longleftrightarrow>
     (case (map_of (nodeGroupToResources j) (node_level m), node_offset offs m,
            map_of P (node_level m)) of
        (Some r, Some off, Some v) \<Rightarrow>
          ngr_nodes r = node_level m \<and> off + length (ngr_job r) \<le> length v
      | _ \<Rightarrow> False)"

definition placeable :: "NodeOffsets \<Rightarrow> NodeGroupToPackedResources \<Rightarrow> offer \<Rightarrow> bool" where
  "placeable offs P jn \<longleftrightarrow>
     distinct (map node_level (traverseUp (snd jn))) \<and>
     list_all (node_placed offs P (fst jn)) (traverseUp (snd jn))"

definition same_shape :: "NodeGroupToPackedResources \<Rightarrow> NodeGroupToPackedResources \<Rightarrow> bool" where
  "same_shape P P' \<longleftrightarrow> (\<forall>g. map_option length (map_of P g) = map_option length (map_of P' g))"

lemma same_shape_refl [simp]: "same_shape P P"
  by (simp add: same_shape_def)

lemma same_shape_trans: "same_shape P Q \<Longrightarrow> same_shape Q R \<Longrightarrow> same_shape P R"
  by (simp add: same_shape_def)

lemma subtract_update_shape: "subtract_update u P = Some P' \<Longrightarrow> same_shape P P'"
  by (auto simp: subtract_update_Some same_shape_def slot_set_def update_conv' split: option.splits)

lemma subtract_updates_shape: "foldO subtract_update us P = Some P' \<Longrightarrow> same_shape P P'"
  by (rule foldO_invariant [where I = "same_shape P" and f = subtract_update and xs = us])
    (auto intro: subtract_update_shape same_shape_trans)

lemma node_placed_shape: "same_shape P P' \<Longrightarrow> node_placed offs P j m = node_placed offs P' j m"
  by (drule same_shape_def [THEN iffD1, THEN spec, of _ _ "node_level m"])
    (auto simp: node_placed_def split: option.splits)

lemma placeable_shape: "same_shape P P' \<Longrightarrow> placeable offs P jn = placeable offs P' jn"
  by (simp add: placeable_def list_all_iff node_placed_shape [of P P'])


text \<open>Updates of distinct slots, each with enough left.\<close>

definition affordable :: "NodeGroupToPackedResources \<Rightarrow> ((nat \<times> nat) \<times> int) list \<Rightarrow> bool" where
  "affordable P us \<longleftrightarrow>
     distinct (map fst us) \<and> (\<forall>u \<in> set us. \<exists>a. slot P (fst u) = Some a \<and> snd u \<le> a)"

lemma affordable_subtract: "affordable P us \<Longrightarrow> \<exists>P'. foldO subtract_update us P = Some P'"
proof (induction us arbitrary: P)
  case (Cons u us)
  then obtain a where a: "slot P (fst u) = Some a" "snd u \<le> a" by (auto simp: affordable_def)
  let ?P = "slot_set (fst u) (a - snd u) P"
  have "affordable ?P us"
    unfolding affordable_def
  proof (intro conjI ballI)
    show "distinct (map fst us)" using Cons.prems by (simp add: affordable_def)
    fix v assume v: "v \<in> set us"
    then have "fst v \<in> fst ` set us" by simp
    moreover have "fst u \<notin> fst ` set us" using Cons.prems by (simp add: affordable_def)
    ultimately have "fst v \<noteq> fst u" by metis
    with v show "\<exists>b. slot ?P (fst v) = Some b \<and> snd v \<le> b"
      using Cons.prems by (simp add: affordable_def slot_slot_set [OF a(1)])
  qed
  with Cons.IH a show ?case by (auto simp: subtract_update_def)
qed simp

lemma node_updates_placed:
  assumes "node_placed offs P j m"
  shows "node_updates offs j P m \<noteq> None"
    and "node_updates offs j P m = Some (Some us) \<Longrightarrow>
      affordable P us \<and> (\<forall>u \<in> set us. fst (fst u) = node_level m)"
  using assms
  by (auto simp: node_placed_def node_updates_def affordable_def slot_def list_ex_iff distinct_map
      inj_on_def not_less split: option.splits if_splits)

lemma chain_updates_placed:
  assumes "list_all (node_placed offs P j) ms" and "distinct (map node_level ms)"
  shows "chain_updates offs j P ms \<noteq> None \<and>
    (\<forall>us. chain_updates offs j P ms = Some (Some us) \<longrightarrow>
      affordable P us \<and> fst ` fst ` set us \<subseteq> node_level ` set ms)"
  using assms
proof (induction ms)
  case Nil
  then show ?case by (simp add: affordable_def)
next
  case (Cons m ms)
  then have IH: "chain_updates offs j P ms \<noteq> None"
    "\<And>us. chain_updates offs j P ms = Some (Some us) \<Longrightarrow>
      affordable P us \<and> fst ` fst ` set us \<subseteq> node_level ` set ms"
    and m: "node_placed offs P j m" and new: "node_level m \<notin> node_level ` set ms"
    by auto
  note here = node_updates_placed [OF m]
  have "affordable P (us1 @ us2)"
    if "affordable P us1" "\<forall>u \<in> set us1. fst (fst u) = node_level m"
      "affordable P us2" "fst ` fst ` set us2 \<subseteq> node_level ` set ms" for us1 us2
  proof -
    have "set (map fst us1) \<inter> set (map fst us2) = {}"
      using that new by (fastforce simp: image_subset_iff)
    with that show ?thesis by (auto simp: affordable_def)
  qed
  note app = this
  show ?case
  proof (intro conjI allI impI)
    show "chain_updates offs j P (m # ms) \<noteq> None"
      using here(1) IH(1) by (auto split: option.splits)
  next
    fix us assume "chain_updates offs j P (m # ms) = Some (Some us)"
    then obtain us1 us2 where 1: "node_updates offs j P m = Some (Some us1)"
      and 2: "chain_updates offs j P ms = Some (Some us2)" and us: "us = us1 @ us2"
      by (auto split: option.splits)
    from here(2) [OF 1] IH(2) [OF 2] show "affordable P us"
      by (simp add: us app)
    from here(2) [OF 1] IH(2) [OF 2]
    show "fst ` fst ` set us \<subseteq> node_level ` set (m # ms)"
      unfolding us by (simp add: image_Un) (auto simp: image_subset_iff)
  qed
qed

lemma try_to_schedule_total:
  assumes "placeable offs P (j, n)" and "cb (jwn_job j) n r \<noteq> None"
  shows "\<exists>ret P' r'. try_to_schedule offs cb n j (P, r) = Some (ret, (P', r')) \<and> same_shape P P'"
proof -
  note chain = chain_updates_placed [of offs P j "traverseUp n"]
  show ?thesis
  proof (cases "chain_updates offs j P (traverseUp n)")
    case None
    with assms chain show ?thesis by (simp add: placeable_def)
  next
    case (Some o1)
    with assms chain have "\<And>us. o1 = Some us \<Longrightarrow> affordable P us" by (simp add: placeable_def)
    then have "\<exists>P'. foldO subtract_update us P = Some P' \<and> same_shape P P'" if "o1 = Some us" for us
      using affordable_subtract [of P us] subtract_updates_shape [of us P] that by auto
    with assms(2) Some show ?thesis
      by (cases o1) (auto simp: try_to_schedule_def)
  qed
qed

lemma offer_run_total:
  assumes "\<forall>jn \<in> set os. placeable offs P jn" and "\<And>j n r. cb j n r \<noteq> None"
  shows "offer_run offs cb os (P, r) \<noteq> None"
  using assms(1)
proof (induction os arbitrary: P r)
  case (Cons jn os)
  obtain j n where jn: "jn = (j, n)" by (cases jn)
  with Cons.prems have "placeable offs P (j, n)" by simp
  from try_to_schedule_total [OF this, of cb r] assms(2) obtain ret P' r' where
    t: "try_to_schedule offs cb n j (P, r) = Some (ret, (P', r'))" and sh: "same_shape P P'"
    by blast
  have "\<forall>jn \<in> set os. placeable offs P' jn"
    using Cons.prems placeable_shape [OF sh] by simp
  with Cons.IH t show ?case by (cases ret) (auto simp: jn)
qed simp



section \<open>The contract of a policy\<close>

locale scheduler_policy =
  fixes policy :: "'r policy"
  assumes offers: "policy offs cb js (P, r) = Some (k, (P', r')) \<Longrightarrow>
    \<exists>order b ts. mset order = mset (all_offers js) \<and>
      offer_run offs cb order (P, r) = Some (b, ts, (P', r')) \<and> k = length ts"
begin

text \<open>The final resources are the initial ones less what the started tasks take.\<close>

lemma within_budget:
  assumes "policy offs cb js (P, r) = Some (k, (P', r'))"
  shows "\<exists>ts. mset ts \<subseteq># mset (all_offers js) \<and> length ts = k \<and>
    (\<forall>s. slot P' s = map_option (\<lambda>a. a - requirements offs s ts) (slot P s)) \<and>
    (\<forall>s a. slot P s = Some a \<longrightarrow> 0 \<le> a \<longrightarrow> requirements offs s ts \<le> a)"
proof -
  from offers [OF assms] obtain order b ts where
    order: "mset order = mset (all_offers js)" and
    run: "offer_run offs cb order (P, r) = Some (b, ts, (P', r'))" and k: "k = length ts"
    by blast
  have "requirements offs s ts \<le> a" if "slot P s = Some a" "0 \<le> a" for s a
    using offer_run_slot(2) [OF run that] by simp
  with offer_run_subset [OF run] offer_run_slot(1) [OF run] k order show ?thesis by auto
qed

text \<open>Nothing is left out that could have run.\<close>

lemma work_conserving:
  assumes "policy offs cb js (P, r) = Some (k, (P', r'))" and "\<forall>j \<in> set js. needs_nonneg j"
    and "\<forall>jn \<in> set (all_offers js). \<not> told_to_stop cb jn"
  shows "\<exists>ts. mset ts \<subseteq># mset (all_offers js) \<and> length ts = k \<and>
    (\<forall>s. slot P' s = map_option (\<lambda>a. a - requirements offs s ts) (slot P s)) \<and>
    (\<forall>jn \<in> set (all_offers js) - set ts. unfit offs P' jn \<or> refused cb jn)"
proof -
  from offers [OF assms(1)] obtain order b ts where
    order: "mset order = mset (all_offers js)" and
    run: "offer_run offs cb order (P, r) = Some (b, ts, (P', r'))" and k: "k = length ts"
    by blast
  have set: "set order = set (all_offers js)" using order by (rule mset_eq_setD)
  have nn: "\<forall>jn \<in> set order. needs_nonneg (fst jn)"
    unfolding set using assms(2) by (auto simp: all_offers_def job_offers_def)
  note complete = offer_run_complete [OF run nn, unfolded set]
  from complete(2,3) assms(3)
  have "\<forall>jn \<in> set (all_offers js) - set ts. unfit offs P' jn \<or> refused cb jn" by blast
  with offer_run_subset [OF run] offer_run_slot(1) [OF run] order k show ?thesis by auto
qed

end

lemma realizes_offers:
  assumes "realizes offs cb js (0, (P, r)) (Some (k, (P', r')))"
  shows "\<exists>order b ts. mset order = mset (all_offers js) \<and>
    offer_run offs cb order (P, r) = Some (b, ts, (P', r')) \<and> k = length ts"
proof -
  from assms obtain order where "mset order = mset (all_offers js)" and
    "map_option (\<lambda>(b, ts, st). (length ts, st)) (offer_run offs cb order (P, r)) = Some (k, (P', r'))"
    by (auto simp: realizes_def dest: sym)
  then show ?thesis by fastforce
qed

lemma all_offers_sort_key: "mset (all_offers (sort_key f js)) = mset (all_offers js)"
proof -
  have "mset (all_offers js) = (\<Sum>j\<in>#mset js. mset (job_offers j (rev (jwn_nodes j))))" for js
    by (induction js) simp_all
  then show ?thesis by simp
qed

lemma in_order_realizes:
  "mset (all_offers js') = mset (all_offers js) \<Longrightarrow>
     realizes offs cb js (0, st) (in_order_loop offs cb js' (0, st))"
  by (auto simp: realizes_def in_order_loop_offers intro!: exI [of _ "all_offers js'"])

lemmas policies_realize =
  round_robin_realizes in_order_realizes [OF all_offers_sort_key]

interpretation round_robin: scheduler_policy round_robin_policy
  by unfold_locales (metis round_robin_policy_def policies_realize(1) realizes_offers)

interpretation ranked_priority: scheduler_policy ranked_priority_schedule
  by unfold_locales (metis ranked_priority_schedule_def policies_realize(2) realizes_offers)

interpretation long_tail: scheduler_policy long_tail_schedule
  by unfold_locales (metis long_tail_schedule_def policies_realize(2) realizes_offers)

interpretation randomized_priority: scheduler_policy "randomized_priority_schedule draw" for draw
  by unfold_locales
    (metis randomized_priority_schedule_def randomized_priority_realizes realizes_offers option.distinct(1))


lemma default_policies_cases:
  assumes "policy \<in> {round_robin_policy, ranked_priority_schedule, long_tail_schedule,
      randomized_priority_schedule draw}"
  shows "scheduler_policy policy"
  using assms round_robin.scheduler_policy_axioms ranked_priority.scheduler_policy_axioms
    long_tail.scheduler_policy_axioms randomized_priority.scheduler_policy_axioms
  by auto

lemma schedule_one_count:
  "schedule_one offs cb j ns s = Some (Next (ns', s')) \<Longrightarrow>
     fst s' = fst s \<and> ns' = [] \<or> fst s' = Suc (fst s)"
proof (induction ns arbitrary: s)
  case (Cons n ns)
  then show ?case
    by (auto split: option.splits TaskRunnerResponse.splits dest!: Cons.IH)
qed simp

text \<open>The order in which the jobs of a sorted list are offered.\<close>

lemma all_offers_sorted:
  assumes "sorted_wrt (\<lambda>a b. R (jwn_job a) (jwn_job b)) js" and "\<And>x. R x x"
  shows "sorted_wrt (\<lambda>a b. R (jwn_job (fst a)) (jwn_job (fst b))) (all_offers js)"
  using assms(1)
proof (induction js)
  case (Cons j js)
  have "sorted_wrt (\<lambda>a b. R (jwn_job (fst a)) (jwn_job (fst b))) (job_offers j ns)" for ns
    by (induction ns) (auto simp: job_offers_def assms(2))
  with Cons show ?case
    by (auto simp: sorted_wrt_append all_offers_def job_offers_def)
qed simp

lemma sorted_wrt_sort_key:
  "sorted_wrt (\<lambda>a b. f a \<le> f b) (sort_key f xs)"
  using sorted_sort_key [of f xs] by (simp add: sorted_map)


section \<open>Properties\<close>

text \<open>A deployment with one resource on two nodes, and a runner that starts every task.\<close>

definition example_jwn :: "string \<Rightarrow> rat \<Rightarrow> int \<Rightarrow> JobWithNodes" where
  "example_jwn name prio amount =
     \<lparr>jwn_job = (example_job 0 name [])\<lparr>priority := prio\<rparr>,
      nodeGroupToResources = [(0, \<lparr>ngr_job = [amount], ngr_nodes = 0\<rparr>)],
      jwn_nodes = [Node 0 ''n0'' 0 True None [], Node 1 ''n1'' 0 True None []]\<rparr>"

definition example_offsets :: NodeOffsets where
  "example_offsets = [((0, ''n0''), 0), ((0, ''n1''), 1)]"

definition example_runner :: "(string \<times> string) list TaskRunnerCallback" where
  "example_runner j n started = Some (RanTask, started @ [(job_name j, node_name n)])"

lemmas example_policy_defs =
  example_jwn_def example_job_def example_offsets_def example_runner_def try_to_schedule_def
  node_updates_def node_offset_def subtract_update_def slot_def slot_set_def

lemma example_round_robin_run:
  "round_robin_policy example_offsets example_runner [example_jwn ''a'' 1 1, example_jwn ''b'' 2 1]
     ([(0, [1, 1])], []) = Some (2, ([(0, [0, 0])], [(''a'', ''n1''), (''b'', ''n0'')]))"
  by (simp add: round_robin_policy_def example_policy_defs)





text \<open>C29: the ranked policy respects priorities: it makes all its offers, in an order
  in which no task comes before a task of a job with a higher priority.\<close>

theorem ranked_priority_order:
  "\<exists>order. mset order = mset (all_offers js) \<and>
     sorted_wrt (\<lambda>a b. priority (jwn_job (fst b)) \<le> priority (jwn_job (fst a))) order \<and>
     ranked_priority_schedule offs cb js st =
       map_option (\<lambda>(b, ts, st'). (length ts, st')) (offer_run offs cb order st)"
proof -
  let ?js = "sort_key (\<lambda>j. - priority (jwn_job j)) js"
  have "sorted_wrt (\<lambda>a b. priority (jwn_job b) \<le> priority (jwn_job a)) ?js"
    using sorted_wrt_sort_key [of "\<lambda>j. - priority (jwn_job j)" js] by simp
  then have "sorted_wrt (\<lambda>a b. priority (jwn_job (fst b)) \<le> priority (jwn_job (fst a)))
      (all_offers ?js)"
    by (rule all_offers_sorted [where R = "\<lambda>x y. priority y \<le> priority x"]) simp
  then show ?thesis
    by (intro exI [of _ "all_offers ?js"])
      (simp add: all_offers_sort_key ranked_priority_schedule_def in_order_loop_offers)
qed



text \<open>C28: every policy comes to an end with a result.  If the ancestors of every
  offered node are of distinct groups and have their place in the packed resources,
  the runner answers every call, and the random draws are in range, then no
  \<^verbatim>\<open>CHECK\<close> of the policy fails.\<close>

theorem policies_return:
  assumes "policy \<in> {round_robin_policy, ranked_priority_schedule, long_tail_schedule,
      randomized_priority_schedule draw}"
    and "\<forall>jn \<in> set (all_offers js). placeable offs P jn"
    and "\<And>j n r. cb j n r \<noteq> None" and "draws_in_range draw"
  shows "\<exists>k st. policy offs cb js (P, r) = Some (k, st)"
proof -
  have "realizes offs cb js (0, (P, r)) (policy offs cb js (P, r))"
    using assms(1) randomized_priority_realizes [of draw offs cb 0 js "(0, (P, r))"] assms(4)
    by (elim insertE emptyE)
      (simp_all add: policies_realize round_robin_policy_def ranked_priority_schedule_def
        long_tail_schedule_def randomized_priority_schedule_def)
  then obtain order where order: "mset order = mset (all_offers js)" and
    run: "policy offs cb js (P, r) =
      map_option (\<lambda>(b, ts, st). (length ts, st)) (offer_run offs cb order (P, r))"
    unfolding realizes_def by auto
  have "\<forall>jn \<in> set order. placeable offs P jn"
    unfolding mset_eq_setD [OF order] by (rule assms(2))
  then obtain b ts st where "offer_run offs cb order (P, r) = Some (b, ts, st)"
    using offer_run_total [of order offs P cb r] assms(3) by (metis not_None_eq prod_cases3)
  with run show ?thesis by simp
qed

theorem policies_return_witness:
  "\<exists>k st. randomized_priority_schedule (\<lambda>i ws. i mod length ws) example_offsets example_runner
     [example_jwn ''a'' 1 1] ([(0, [1, 1])], []) = Some (k, st)"
  by (rule policies_return [where draw = "\<lambda>i ws. i mod length ws"])
    (simp_all add: example_jwn_def example_offsets_def example_runner_def placeable_def
      node_placed_def node_offset_def draws_in_range_def all_offers_def job_offers_def)

end
