(* ===== verification/Task_Scheduler.thy ===== *)
theory Task_Scheduler
  imports Scheduler_Policies "HOL-Library.List_Lexorder" "HOL-Library.Char_ord"
begin

text \<open>
  \<^verbatim>\<open>scheduler/Scheduler\<close>: one round of scheduling.  The nodes are grouped by level
  and their resources packed into vectors, the resources of the running tasks are
  subtracted and the orphans among them found, the tasks that may start are
  selected, and a policy offers them to the runner.  \<open>None\<close> is a failed
  \<^verbatim>\<open>CHECK\<close>, an access that is out of range, or an exception, none of which the
  scheduler catches.
\<close>

section \<open>Model\<close>

text \<open>
  What the sources leave to chance: the order in which a hash map of node groups
  is walked, the shuffling of nodes and of jobs.
\<close>

record sched_choices =
  groups_order :: "nat list \<Rightarrow> nat list"
  shuffle_nodes :: "Node list \<Rightarrow> Node list"
  shuffle_jobs :: "(string \<times> Job) list \<Rightarrow> (string \<times> Job) list"

subsection \<open>Node groups\<close>

definition makeResourceToIndex :: "Config \<Rightarrow> nat \<Rightarrow> (string \<times> nat) list option" where
  "makeResourceToIndex config ngid =
     (if ngid \<ge> length (levelIDToResourceID config) then None
      else
        let rids = levelIDToResourceID config ! ngid in
        foldO (\<lambda>i m. map_option (\<lambda>name. AList.update name i m)
                       (st_name (resourceNames config) (int (rids ! i))))
          [0..<length rids] [])"

record NodeGroup =
  nodeGroupID :: nat
  resourceToIndex :: "(string \<times> nat) list"
  group_nodes :: "Node list"

text \<open>
  The vector of amounts, then the loop over the nodes: \<open>names\<close> is
  \<^verbatim>\<open>node_name_to_offset\<close>, and the amounts are repeated for each new name.
\<close>

definition group_amounts :: "Config \<Rightarrow> nat \<Rightarrow> int list option" where
  "group_amounts c ngid =
     (if ngid \<ge> length (resourcesByLevel c) \<or> ngid \<ge> length (levelIDToResourceID c) then None
      else
        let rid_to_amount = resourcesByLevel c ! ngid in
        those (map (\<lambda>rid.
          if rid < length rid_to_amount \<and> rid_to_amount ! rid \<noteq> 2 ^ 31 - 1
          then Some (rid_to_amount ! rid) else None)
          (levelIDToResourceID c ! ngid)))"

definition pack_node ::
  "int list \<Rightarrow> Node \<Rightarrow> (string \<times> nat) list \<times> NodeOffsets \<times> PackedResources \<Rightarrow>
   (string \<times> nat) list \<times> NodeOffsets \<times> PackedResources" where
  "pack_node amounts node s =
     (case s of (names, offs, packed) \<Rightarrow>
        (case um_emplace names (node_name node) (length names) of (names', inserted) \<Rightarrow>
           let index = (case map_of names' (node_name node) of Some i \<Rightarrow> i | None \<Rightarrow> 0) in
           (names',
            AList.update (node_level node, node_name node) (index * length amounts) offs,
            if inserted then packed @ amounts else packed)))"

definition packResourcesInto ::
  "Config \<Rightarrow> NodeGroup \<Rightarrow> NodeGroupToPackedResources \<times> NodeOffsets \<Rightarrow>
   (NodeGroupToPackedResources \<times> NodeOffsets) option" where
  "packResourcesInto c ng s =
     (case group_amounts c (nodeGroupID ng) of
        None \<Rightarrow> None
      | Some amounts \<Rightarrow>
          let packed0 = (case map_of (fst s) (nodeGroupID ng) of Some v \<Rightarrow> v | None \<Rightarrow> []) in
          (case fold (pack_node amounts) (group_nodes ng) ([], snd s, packed0) of
             (names, offs, packed) \<Rightarrow>
               if length names * length amounts = length packed
               then Some (AList.update (nodeGroupID ng) packed (fst s), offs)
               else None))"

text \<open>
  \<^verbatim>\<open>std::sort\<close> does not fix the order of replicas, which have the same name; the
  model keeps the one they have.
\<close>

definition reorderNodes :: "sched_choices \<Rightarrow> NodeOrderType \<Rightarrow> NodeGroup \<Rightarrow> NodeGroup" where
  "reorderNodes ch order ng =
     ng\<lparr>group_nodes :=
       (case order of
          Original \<Rightarrow> group_nodes ng
        | Lexicographic \<Rightarrow> sort_key node_name (group_nodes ng)
        | Random \<Rightarrow> shuffle_nodes ch (group_nodes ng))\<rparr>"

subsection \<open>Running tasks\<close>

text \<open>What \<^verbatim>\<open>processRunningTasks\<close> reports to the monitor.\<close>

datatype SchedulerError =
    ResourceNotFound string string
  | ResourceNegative string int string
  | UnknownNode string "Resource list" bool

text \<open>The two views on the running tasks, as hash maps by node name.\<close>

definition multimap_push :: "bool \<Rightarrow> string \<Rightarrow> 'v list \<Rightarrow> (string \<times> 'v list) list \<Rightarrow> (string \<times> 'v list) list" where
  "multimap_push front k vs m =
     (let old = (case map_of m k of Some xs \<Rightarrow> xs | None \<Rightarrow> []) in
      AList.update k (if front then vs @ old else old @ vs) m)"

definition node_to_tasks_of :: "RunningTask list \<Rightarrow> (string \<times> RunningTask list) list" where
  "node_to_tasks_of rts = fold (\<lambda>rt. multimap_push True (rt_node rt) [rt]) rts []"

definition node_used_resources_of :: "RunningTask list \<Rightarrow> (string \<times> Resource list) list" where
  "node_used_resources_of rts =
     fold (\<lambda>rt. fold (\<lambda>nr. multimap_push False (nr_node nr) (nr_resources nr)) (nodeResources rt)) rts []"

text \<open>The state of the loop over the groups and their nodes.\<close>

record RunningScan =
  node_to_tasks :: "(string \<times> RunningTask list) list"
  node_used_resources :: "(string \<times> Resource list) list"
  scan_packed :: NodeGroupToPackedResources
  scan_errors :: "SchedulerError list"

definition scan_orphans :: "Config \<Rightarrow> Node \<Rightarrow> RunningScan \<Rightarrow> RunningScan" where
  "scan_orphans config node s =
     (if node_enabled node then
        (case map_of (node_to_tasks s) (node_name node) of
           None \<Rightarrow> s
         | Some tasks \<Rightarrow>
             s\<lparr>node_to_tasks := AList.update (node_name node)
                 (filter (\<lambda>rt. \<not> (case map_of (jobs config) (rt_job rt) of
                                    Some job \<Rightarrow> canRun job | None \<Rightarrow> False)) tasks)
                 (node_to_tasks s)\<rparr>)
      else s)"

definition subtract_resource ::
  "NodeOffsets \<Rightarrow> NodeGroup \<Rightarrow> Node \<Rightarrow> Resource \<Rightarrow> RunningScan \<Rightarrow> RunningScan option" where
  "subtract_resource offs ng node r s =
     (case map_of (resourceToIndex ng) (res_name r) of
        None \<Rightarrow>
          Some (s\<lparr>scan_errors := scan_errors s @ [ResourceNotFound (res_name r) (node_name node)]\<rparr>)
      | Some i \<Rightarrow>
          (case node_offset offs node of
             None \<Rightarrow> None
           | Some off \<Rightarrow>
               (case slot (scan_packed s) (nodeGroupID ng, off + i) of
                  None \<Rightarrow> None
                | Some a \<Rightarrow>
                    let amount = a - res_amount r in
                    Some (s\<lparr>scan_packed := slot_set (nodeGroupID ng, off + i) amount (scan_packed s),
                            scan_errors := scan_errors s @
                              (if amount < 0 then [ResourceNegative (res_name r) amount (node_name node)]
                               else [])\<rparr>))))"

definition scan_node ::
  "Config \<Rightarrow> NodeOffsets \<Rightarrow> NodeGroup \<Rightarrow> Node \<Rightarrow> RunningScan \<Rightarrow> RunningScan option" where
  "scan_node config offs ng node s0 =
     (let s = scan_orphans config node s0 in
      case map_of (node_used_resources s) (node_name node) of
        None \<Rightarrow> Some s
      | Some rs \<Rightarrow>
          map_option (\<lambda>s'. s'\<lparr>node_used_resources := AList.delete (node_name node) (node_used_resources s')\<rparr>)
            (foldO (subtract_resource offs ng node) rs s))"

definition unknown_node_error :: "string list \<Rightarrow> string \<times> Resource list \<Rightarrow> SchedulerError list" where
  "unknown_node_error worker_resource_names p =
     (let num_worker_resources =
            length (filter (\<lambda>r. res_name r \<in> set worker_resource_names) (snd p)) in
      if num_worker_resources \<noteq> 0 \<and> num_worker_resources = length (snd p) then []
      else [UnknownNode (fst p) (snd p) (num_worker_resources \<noteq> 0)])"

definition processRunningTasks ::
  "Config \<Rightarrow> RunningTask list \<Rightarrow> NodeGroup list \<Rightarrow> NodeOffsets \<Rightarrow> NodeGroupToPackedResources \<Rightarrow>
   (RunningTask list \<times> NodeGroupToPackedResources \<times> SchedulerError list) option" where
  "processRunningTasks config running_tasks node_groups offs packed =
     (case foldO (\<lambda>ng. foldO (scan_node config offs ng) (group_nodes ng)) node_groups
             \<lparr>node_to_tasks = node_to_tasks_of running_tasks,
              node_used_resources = node_used_resources_of running_tasks,
              scan_packed = packed, scan_errors = []\<rparr> of
        None \<Rightarrow> None
      | Some s \<Rightarrow>
          let worker_level = st_lookup (levels config) ''worker'' in
          if worker_level < 0 \<or> worker_level \<ge> int (length (levelIDToResourceID config)) then None
          else
            (case those (map (\<lambda>rid. st_name (resourceNames config) (int rid))
                     (levelIDToResourceID config ! nat worker_level)) of
               None \<Rightarrow> None
             | Some worker_resource_names \<Rightarrow>
                 Some (concat (map snd (node_to_tasks s)), scan_packed s,
                   scan_errors s @
                   concat (map (unknown_node_error worker_resource_names) (node_used_resources s)))))"


subsection \<open>The tasks that may start\<close>

text \<open>
  \<^verbatim>\<open>std::all_of\<close> over the dependencies: it ends at the first that is not done.
\<close>

fun dependencies_done :: "TaskStatusSnapshot \<Rightarrow> nat \<Rightarrow> nat list \<Rightarrow> bool option" where
  "dependencies_done snap n [] = Some True"
| "dependencies_done snap n (d # ds) =
     (case getPtr snap d n of
        None \<Rightarrow> None
      | Some None \<Rightarrow> Some False
      | Some (Some st) \<Rightarrow> if isDone st then dependencies_done snap n ds else Some False)"

text \<open>The body of the loop over the nodes, which decides whether the node is kept.\<close>

definition may_start ::
  "boost \<Rightarrow> int \<Rightarrow> TaskStatusSnapshot \<Rightarrow> Job \<Rightarrow> StatusRow option \<Rightarrow> Node \<Rightarrow> bool option" where
  "may_start B cur_time snap job row node =
     (if (case row_getPtr row (node_id node) of
            Some s \<Rightarrow> isRunning s \<or> isDone s \<or> isFailed s \<or> isInBackoff s cur_time
          | None \<Rightarrow> False) then Some False
      else
        (case shouldRunOn B job node of
           None \<Rightarrow> None
         | Some Yes \<Rightarrow> dependencies_done snap (node_id node) (dependsOn job)
         | Some _ \<Rightarrow> Some False))"

definition select_node ::
  "boost \<Rightarrow> int \<Rightarrow> TaskStatusSnapshot \<Rightarrow> Job \<Rightarrow> StatusRow option \<Rightarrow> Node \<Rightarrow> Node list \<Rightarrow> Node list option" where
  "select_node B cur_time snap job row node ns =
     map_option (\<lambda>keep. if keep then ns @ [node] else ns) (may_start B cur_time snap job row node)"

definition group_of :: "NodeGroup list \<Rightarrow> nat \<Rightarrow> NodeGroup option" where
  "group_of node_groups ngid = find (\<lambda>ng. nodeGroupID ng = ngid) node_groups"

text \<open>The body of the loop over the jobs, and the loop.\<close>

definition select_job ::
  "boost \<Rightarrow> int \<Rightarrow> Config \<Rightarrow> TaskStatusSnapshot \<Rightarrow> NodeGroup list \<Rightarrow> NodeGroupToPackedResources \<Rightarrow>
   string \<times> Job \<Rightarrow> JobWithNodes list \<Rightarrow> JobWithNodes list option" where
  "select_job B cur_time config snap node_groups packed job_pair jwns =
     (let job = snd job_pair in
      if \<not> canRun job then Some jwns
      else
        (case (mkJobWithNodes config job packed, getRow snap (job_id job)) of
           (Some jwn, Some row) \<Rightarrow>
             (case group_of node_groups (levelForTasks job) of
                None \<Rightarrow> Some (jwns @ [jwn])
              | Some ng \<Rightarrow>
                  map_option (\<lambda>ns. jwns @ [jwn\<lparr>jwn_nodes := ns\<rparr>])
                    (foldO (select_node B cur_time snap job row) (group_nodes ng) []))
         | _ \<Rightarrow> None))"

definition select_tasks ::
  "boost \<Rightarrow> sched_choices \<Rightarrow> int \<Rightarrow> Config \<Rightarrow> TaskStatusSnapshot \<Rightarrow> NodeGroup list \<Rightarrow>
   NodeGroupToPackedResources \<Rightarrow> JobWithNodes list option" where
  "select_tasks B ch cur_time config snap node_groups packed =
     foldO (select_job B cur_time config snap node_groups packed) (shuffle_jobs ch (jobs config)) []"

subsection \<open>A round of scheduling\<close>

definition group_nodes_by_level :: "sched_choices \<Rightarrow> Config \<Rightarrow> Node list \<Rightarrow> NodeGroup list option" where
  "group_nodes_by_level ch config nodes =
     (if list_ex (\<lambda>n. node_level n \<ge> length (levelIDToResourceID config)) nodes then None
      else
        those (map (\<lambda>ngid.
          map_option (\<lambda>ri. \<lparr>nodeGroupID = ngid, resourceToIndex = ri,
              group_nodes = filter (\<lambda>n. node_level n = ngid) nodes\<rparr>)
            (makeResourceToIndex config ngid))
          (groups_order ch [0..<length (levelIDToResourceID config)])))"

definition pack_groups ::
  "sched_choices \<Rightarrow> Config \<Rightarrow> Node list \<Rightarrow>
   (NodeGroup list \<times> NodeGroupToPackedResources \<times> NodeOffsets) option" where
  "pack_groups ch config nodes =
     Option.bind (group_nodes_by_level ch config nodes) (\<lambda>groups0.
       let node_groups = map (reorderNodes ch (nodeOrderType config)) groups0 in
       map_option (Pair node_groups) (foldO (packResourcesInto config) node_groups ([], [])))"

record SchedulerResult =
  areTasksRunning :: bool
  orphanTasks :: "RunningTask list"

text \<open>
  \<^verbatim>\<open>Scheduler::schedule\<close>.  The result comes with the errors reported to the monitor
  and with the final state: the packed resources and the state of the runner.
\<close>

definition schedule ::
  "boost \<Rightarrow> sched_choices \<Rightarrow> (string \<times> 'r policy) list \<Rightarrow> int \<Rightarrow> Config \<Rightarrow> Node list \<Rightarrow>
   TaskStatusSnapshot \<Rightarrow> 'r TaskRunnerCallback \<Rightarrow> 'r \<Rightarrow>
   (SchedulerResult \<times> SchedulerError list \<times> 'r sched_state) option" where
  "schedule B ch policies cur_time config nodes snap cb r =
     (if length (levelIDToResourceID config) \<noteq> length (resourcesByLevel config) then None
      else
        Option.bind (pack_groups ch config nodes) (\<lambda>(node_groups, packed0, offs).
        Option.bind (processRunningTasks config (map snd (runningTasks snap)) node_groups offs packed0)
          (\<lambda>(orphans, packed, errors).
        Option.bind (select_tasks B ch cur_time config snap node_groups packed) (\<lambda>jwns.
        case getSchedulerPolicy policies (schedulerPolicyName config) of
          Inl _ \<Rightarrow> None
        | Inr policy \<Rightarrow>
            map_option (\<lambda>(scheduled_tasks, st).
              (\<lparr>areTasksRunning = (runningTasks snap \<noteq> [] \<or> scheduled_tasks > 0),
                orphanTasks = orphans\<rparr>, errors, st))
              (policy offs cb jwns (packed, r))))))"


section \<open>Selection\<close>

text \<open>The tasks that may start, as a specification.\<close>

definition eligible ::
  "boost \<Rightarrow> int \<Rightarrow> Config \<Rightarrow> Node list \<Rightarrow> TaskStatusSnapshot \<Rightarrow> Job \<Rightarrow> Node \<Rightarrow> bool" where
  "eligible B cur_time config nodes snap job node \<longleftrightarrow>
     job \<in> snd ` set (jobs config) \<and> canRun job \<and>
     node \<in> set nodes \<and> node_level node = levelForTasks job \<and>
     (case status_at snap (job_id job) (node_id node) of
        Some s \<Rightarrow> \<not> isRunning s \<and> \<not> isDone s \<and> \<not> isFailed s \<and> \<not> isInBackoff s cur_time
      | None \<Rightarrow> True) \<and>
     shouldRunOn B job node = Some Yes \<and>
     (\<forall>d \<in> set (dependsOn job). \<exists>s. status_at snap d (node_id node) = Some s \<and> isDone s)"

lemma isEmpty_tests:
  "isEmpty st \<Longrightarrow> \<not> isRunning st \<and> \<not> isDone st \<and> \<not> isFailed st \<and> \<not> isInBackoff st t"
  by (auto simp: isEmpty_def status_tests isInBackoff_def status_bits)

lemma getPtr_status_at:
  "getPtr snap j n = Some (Some st) \<longleftrightarrow>
     status_at snap j n = Some st \<and> \<not> isEmpty st \<and> isLoaded (rows snap ! j)"
  by (auto simp: getPtr_def status_at_def status_ref_def)

lemma getPtr_None: "getPtr snap j n = None \<longleftrightarrow> j < length (rows snap) \<and> \<not> isLoaded (rows snap ! j)"
  by (auto simp: getPtr_def)

lemma dependencies_done_iff:
  assumes "dependencies_done snap n ds = Some b"
  shows "b \<longleftrightarrow> (\<forall>d \<in> set ds. \<exists>s. status_at snap d n = Some s \<and> isDone s)"
  using assms
proof (induction ds)
  case (Cons d ds)
  show ?case
  proof (cases "getPtr snap d n")
    case None
    with Cons show ?thesis by simp
  next
    case (Some p)
    show ?thesis
    proof (cases p)
      case None
      with Some have "\<nexists>s. status_at snap d n = Some s \<and> isDone s"
        by (auto simp: getPtr_def status_at_def status_ref_def dest: isEmpty_tests split: if_splits)
      with None Some Cons show ?thesis by auto
    next
      case (Some st)
      with \<open>getPtr snap d n = Some p\<close> have ptr: "getPtr snap d n = Some (Some st)" by simp
      then have "status_at snap d n = Some st" by (simp add: getPtr_status_at)
      with ptr Cons show ?thesis by (auto split: if_splits)
    qed
  qed
qed simp


lemma may_start_iff:
  assumes "getRow snap (job_id job) = Some row" and "may_start B t snap job row node = Some b"
  shows "b \<longleftrightarrow>
    (case status_at snap (job_id job) (node_id node) of
       Some s \<Rightarrow> \<not> isRunning s \<and> \<not> isDone s \<and> \<not> isFailed s \<and> \<not> isInBackoff s t
     | None \<Rightarrow> True) \<and>
    shouldRunOn B job node = Some Yes \<and>
    (\<forall>d \<in> set (dependsOn job). \<exists>s. status_at snap d (node_id node) = Some s \<and> isDone s)"
proof -
  let ?idle = "\<lambda>s. \<not> isRunning s \<and> \<not> isDone s \<and> \<not> isFailed s \<and> \<not> isInBackoff s t"
  have ptr: "(case row_getPtr row (node_id node) of Some s \<Rightarrow> ?idle s | None \<Rightarrow> True) \<longleftrightarrow>
      (case status_at snap (job_id job) (node_id node) of Some s \<Rightarrow> ?idle s | None \<Rightarrow> True)"
    using assms(1) isEmpty_tests
    by (auto simp: getRow_def row_getPtr_def status_at_def status_ref_def split: if_splits)
  show ?thesis
  proof (cases "case row_getPtr row (node_id node) of Some s \<Rightarrow> ?idle s | None \<Rightarrow> True")
    case False
    with ptr assms(2) show ?thesis by (auto simp: may_start_def split: option.splits if_splits)
  next
    case True
    then have "may_start B t snap job row node =
      (case shouldRunOn B job node of
         None \<Rightarrow> None
       | Some Yes \<Rightarrow> dependencies_done snap (node_id node) (dependsOn job)
       | Some _ \<Rightarrow> Some False)"
      by (auto simp: may_start_def split: option.splits)
    with True ptr assms(2) dependencies_done_iff [of snap "node_id node" "dependsOn job" b] show ?thesis
      by (auto split: option.splits ShouldRun.splits)
  qed
qed

lemma select_nodes:
  "foldO (select_node B t snap job row) nodes acc = Some ns \<Longrightarrow>
     ns = acc @ filter (\<lambda>n. may_start B t snap job row n = Some True) nodes \<and>
     (\<forall>n \<in> set nodes. may_start B t snap job row n \<noteq> None)"
proof (induction nodes arbitrary: acc)
  case (Cons n nodes)
  from Cons.prems obtain b where b: "may_start B t snap job row n = Some b"
    and "foldO (select_node B t snap job row) nodes (if b then acc @ [n] else acc) = Some ns"
    by (auto simp: select_node_def [of B t snap job row n] split: option.splits)
  from Cons.IH [OF this(2)] b show ?case by (cases b) (simp_all del: not_None_eq)
qed simp

text \<open>The groups after the nodes were distributed and reordered.\<close>

definition choices_ok :: "sched_choices \<Rightarrow> bool" where
  "choices_ok ch \<longleftrightarrow>
     (\<forall>xs. mset (groups_order ch xs) = mset xs) \<and>
     (\<forall>ns. mset (shuffle_nodes ch ns) = mset ns) \<and>
     (\<forall>js. mset (shuffle_jobs ch js) = mset js)"

definition groups_ok :: "Config \<Rightarrow> Node list \<Rightarrow> NodeGroup list \<Rightarrow> bool" where
  "groups_ok config nodes gs \<longleftrightarrow>
     (\<forall>n \<in> set nodes. node_level n < length (levelIDToResourceID config)) \<and>
     distinct (map nodeGroupID gs) \<and>
     set (map nodeGroupID gs) = {0..<length (levelIDToResourceID config)} \<and>
     (\<forall>ng \<in> set gs. mset (group_nodes ng) = mset (filter (\<lambda>n. node_level n = nodeGroupID ng) nodes) \<and>
        makeResourceToIndex config (nodeGroupID ng) = Some (resourceToIndex ng))"

lemma those_map_list_all2:
  "those (map f xs) = Some ys \<Longrightarrow> list_all2 (\<lambda>x y. f x = Some y) xs ys"
  by (induction xs arbitrary: ys) (auto split: option.splits)

lemma list_all2_partner:
  assumes "list_all2 R xs ys"
  shows "x \<in> set xs \<Longrightarrow> \<exists>y \<in> set ys. R x y" and "y \<in> set ys \<Longrightarrow> \<exists>x \<in> set xs. R x y"
  using assms by (induction rule: list_all2_induct) auto

lemma reorderNodes_simps [simp]:
  "nodeGroupID (reorderNodes ch order ng) = nodeGroupID ng"
  "resourceToIndex (reorderNodes ch order ng) = resourceToIndex ng"
  by (simp_all add: reorderNodes_def)

lemma mset_reorderNodes:
  "choices_ok ch \<Longrightarrow> mset (group_nodes (reorderNodes ch order ng)) = mset (group_nodes ng)"
  by (auto simp: reorderNodes_def choices_ok_def split: NodeOrderType.splits)

definition group_made :: "Config \<Rightarrow> Node list \<Rightarrow> nat \<Rightarrow> NodeGroup \<Rightarrow> bool" where
  "group_made config nodes i ng \<longleftrightarrow>
     nodeGroupID ng = i \<and> group_nodes ng = filter (\<lambda>n. node_level n = i) nodes \<and>
     makeResourceToIndex config i = Some (resourceToIndex ng)"

lemma group_nodes_by_level_made:
  assumes "group_nodes_by_level ch config nodes = Some gs"
  shows "list_all2 (group_made config nodes) (groups_order ch [0..<length (levelIDToResourceID config)]) gs"
    and "\<forall>n \<in> set nodes. node_level n < length (levelIDToResourceID config)"
proof -
  from assms have those: "those (map (\<lambda>ngid.
          map_option (\<lambda>ri. \<lparr>nodeGroupID = ngid, resourceToIndex = ri,
              group_nodes = filter (\<lambda>n. node_level n = ngid) nodes\<rparr>)
            (makeResourceToIndex config ngid))
          (groups_order ch [0..<length (levelIDToResourceID config)])) = Some gs"
    by (simp add: group_nodes_by_level_def split: if_splits)
  from those_map_list_all2 [OF this]
  show "list_all2 (group_made config nodes) (groups_order ch [0..<length (levelIDToResourceID config)]) gs"
    by (rule list_all2_mono) (auto simp: group_made_def)
  from assms show "\<forall>n \<in> set nodes. node_level n < length (levelIDToResourceID config)"
    by (simp add: group_nodes_by_level_def list_ex_iff not_le split: if_splits)
qed

lemma grouped_nodes_ok:
  assumes "choices_ok ch" and "group_nodes_by_level ch config nodes = Some gs"
  shows "groups_ok config nodes (map (reorderNodes ch order) gs)"
proof -
  let ?L = "length (levelIDToResourceID config)"
  let ?ids = "groups_order ch [0..<?L]"
  note made = group_nodes_by_level_made [OF assms(2)]
  have ids: "mset ?ids = mset [0..<?L]" using assms(1) by (simp add: choices_ok_def)
  have ids': "distinct ?ids" "set ?ids = {0..<?L}"
    using mset_eq_imp_distinct_iff [OF ids] mset_eq_setD [OF ids] by simp_all
  from made(1) have gids: "map nodeGroupID gs = ?ids"
    by (induction rule: list_all2_induct) (simp_all add: group_made_def)
  have "\<exists>i. group_made config nodes i ng" if "ng \<in> set gs" for ng
    using list_all2_partner(2) [OF made(1) that] by blast
  then have "\<forall>ng \<in> set gs. group_nodes ng = filter (\<lambda>n. node_level n = nodeGroupID ng) nodes \<and>
      makeResourceToIndex config (nodeGroupID ng) = Some (resourceToIndex ng)"
    by (auto simp: group_made_def)
  moreover have "map nodeGroupID (map (reorderNodes ch order) gs) = ?ids"
    using gids by (simp add: comp_def)
  ultimately show ?thesis
    using made(2) ids' unfolding groups_ok_def
    by (simp add: mset_reorderNodes [OF assms(1)] del: map_map)
qed

lemma group_of_Some:
  "group_of gs i = Some ng \<Longrightarrow> ng \<in> set gs \<and> nodeGroupID ng = i"
  by (auto simp: group_of_def find_Some_iff)

lemma group_of_None:
  "group_of gs i = None \<longleftrightarrow> i \<notin> nodeGroupID ` set gs"
  by (auto simp: group_of_def find_None_iff)

definition selected ::
  "boost \<Rightarrow> int \<Rightarrow> Config \<Rightarrow> Node list \<Rightarrow> TaskStatusSnapshot \<Rightarrow> NodeGroupToPackedResources \<Rightarrow>
   string \<times> Job \<Rightarrow> JobWithNodes \<Rightarrow> bool" where
  "selected B t config nodes snap packed p j \<longleftrightarrow>
     mkJobWithNodes config (snd p) packed = Some (j\<lparr>jwn_nodes := []\<rparr>) \<and>
     mset (jwn_nodes j) = mset (filter (eligible B t config nodes snap (snd p)) nodes)"

lemma mkJobWithNodes_nodes:
  "mkJobWithNodes config job packed = Some jwn \<Longrightarrow>
     jwn_job jwn = job \<and> jwn\<lparr>jwn_nodes := []\<rparr> = jwn \<and> jwn_nodes jwn = []"
  by (auto simp: mkJobWithNodes_def)

lemma select_job_selected:
  assumes gs: "groups_ok config nodes gs" and p: "p \<in> set (jobs config)" and run: "canRun (snd p)"
    and sel: "select_job B t config snap gs packed p acc = Some jwns"
  shows "\<exists>j. jwns = acc @ [j] \<and> selected B t config nodes snap packed p j"
proof -
  let ?job = "snd p"
  from sel run obtain jwn row where mk: "mkJobWithNodes config ?job packed = Some jwn"
    and row: "getRow snap (job_id ?job) = Some row"
    by (auto simp: select_job_def Let_def split: option.splits)
  note jwn = mkJobWithNodes_nodes [OF mk]
  show ?thesis
  proof (cases "group_of gs (levelForTasks ?job)")
    case None
    with gs have "levelForTasks ?job \<ge> length (levelIDToResourceID config)"
      by (auto simp: group_of_None groups_ok_def)
    with gs have none: "filter (eligible B t config nodes snap ?job) nodes = []"
      by (auto simp: filter_empty_conv eligible_def groups_ok_def)
    from None sel run mk row have "jwns = acc @ [jwn]"
      by (simp add: select_job_def Let_def)
    moreover have "selected B t config nodes snap packed p jwn"
      using mk jwn none by (simp add: selected_def)
    ultimately show ?thesis by blast
  next
    case (Some ng)
    with sel run mk row obtain ns where
      ns: "foldO (select_node B t snap ?job row) (group_nodes ng) [] = Some ns"
      and jwns: "jwns = acc @ [jwn\<lparr>jwn_nodes := ns\<rparr>]"
      by (auto simp: select_job_def Let_def)
    note ns' = select_nodes [OF ns]
    from group_of_Some [OF Some] gs
    have nodes: "mset (group_nodes ng) = mset (filter (\<lambda>n. node_level n = levelForTasks ?job) nodes)"
      by (auto simp: groups_ok_def)
    then have set: "set (group_nodes ng) = set (filter (\<lambda>n. node_level n = levelForTasks ?job) nodes)"
      by (rule mset_eq_setD)
    have "may_start B t snap ?job row n = Some True \<longleftrightarrow> eligible B t config nodes snap ?job n"
      if "n \<in> set (group_nodes ng)" for n
    proof -
      from ns' that obtain b where b: "may_start B t snap ?job row n = Some b" by blast
      from may_start_iff [OF row b] b that set p run show ?thesis
        by (auto simp: eligible_def)
    qed
    then have "ns = filter (eligible B t config nodes snap ?job) (group_nodes ng)"
      using ns' by (auto intro: filter_cong)
    then have "mset ns = mset (filter (eligible B t config nodes snap ?job)
        (filter (\<lambda>n. node_level n = levelForTasks ?job) nodes))"
      by (simp add: mset_filter nodes del: filter_filter)
    also have "\<dots> = mset (filter (eligible B t config nodes snap ?job) nodes)"
      by (rule arg_cong [where f = mset], simp, rule filter_cong) (auto simp: eligible_def)
    finally have "selected B t config nodes snap packed p (jwn\<lparr>jwn_nodes := ns\<rparr>)"
      using mk jwn by (simp add: selected_def)
    with jwns show ?thesis by blast
  qed
qed

lemma select_jobs_selected:
  assumes "groups_ok config nodes gs" and "set ps \<subseteq> set (jobs config)"
    and "foldO (select_job B t config snap gs packed) ps acc = Some jwns"
  shows "\<exists>new. jwns = acc @ new \<and>
    list_all2 (selected B t config nodes snap packed) (filter (\<lambda>p. canRun (snd p)) ps) new"
  using assms(2,3)
proof (induction ps arbitrary: acc)
  case (Cons p ps)
  then obtain acc' where p: "select_job B t config snap gs packed p acc = Some acc'"
    and "foldO (select_job B t config snap gs packed) ps acc' = Some jwns"
    by (auto split: option.splits)
  with Cons.IH [of acc'] Cons.prems obtain new where
    new: "jwns = acc' @ new"
    "list_all2 (selected B t config nodes snap packed) (filter (\<lambda>p. canRun (snd p)) ps) new"
    by auto
  show ?case
  proof (cases "canRun (snd p)")
    case True
    with select_job_selected [OF assms(1) _ _ p] Cons.prems new show ?thesis by auto
  next
    case False
    with p new show ?thesis by (auto simp: select_job_def Let_def)
  qed
qed simp


text \<open>Each eligible task is offered once, where jobs and nodes are distinct.\<close>

definition offered_task :: "offer \<Rightarrow> Job \<times> Node" where
  "offered_task jn = (jwn_job (fst jn), snd jn)"

lemma selected_facts:
  assumes "selected B t config nodes snap packed p j"
  shows "jwn_job j = snd p"
    and "set (jwn_nodes j) = {n \<in> set nodes. eligible B t config nodes snap (snd p) n}"
    and "distinct nodes \<Longrightarrow> distinct (jwn_nodes j)"
proof -
  let ?ns = "filter (eligible B t config nodes snap (snd p)) nodes"
  from assms have mset: "mset (jwn_nodes j) = mset ?ns" by (simp add: selected_def)
  from mset_eq_setD [OF mset] show "set (jwn_nodes j) = {n \<in> set nodes. eligible B t config nodes snap (snd p) n}"
    by simp
  from mset_eq_imp_distinct_iff [OF mset] show "distinct nodes \<Longrightarrow> distinct (jwn_nodes j)"
    by simp
  from assms show "jwn_job j = snd p"
    using mkJobWithNodes_nodes [of config "snd p" packed "j\<lparr>jwn_nodes := []\<rparr>"]
    by (simp add: selected_def)
qed

lemma distinct_map_append_disjoint:
  assumes "distinct (map f xs)" and "distinct (map f ys)"
    and "(g \<circ> f) ` set xs \<subseteq> A" and "(g \<circ> f) ` set ys \<subseteq> B" and "A \<inter> B = {}"
  shows "distinct (map f (xs @ ys))"
proof -
  have "f x \<noteq> f y" if "x \<in> set xs" "y \<in> set ys" for x y
    using assms(3-5) that by (metis comp_apply disjoint_iff image_subset_iff)
  with assms(1,2) show ?thesis by (auto dest: sym)
qed

lemma selected_offers_distinct:
  assumes "list_all2 (selected B t config nodes snap packed) ps jwns"
    and "distinct (map snd ps)" and "distinct nodes"
  shows "distinct (map offered_task (all_offers jwns)) \<and>
    (fst \<circ> offered_task) ` set (all_offers jwns) \<subseteq> snd ` set ps"
  using assms(1,2)
proof (induction rule: list_all2_induct)
  case (Cons p ps j jwns)
  note j = selected_facts [OF Cons(1)]
  have this_job: "distinct (map offered_task (job_offers j (rev (jwn_nodes j))))"
    using j(3) [OF assms(3)]
    by (auto simp: distinct_map job_offers_def offered_task_def inj_on_def)
  have this_name: "(fst \<circ> offered_task) ` set (job_offers j (rev (jwn_nodes j))) \<subseteq> {snd p}"
    by (auto simp: job_offers_def offered_task_def j(1))
  have rest: "(fst \<circ> offered_task) ` set (all_offers jwns) \<subseteq> snd ` set ps"
    "distinct (map offered_task (all_offers jwns))" "{snd p} \<inter> snd ` set ps = {}"
    using Cons by auto
  from distinct_map_append_disjoint [OF this_job rest(2) this_name rest(1) rest(3)] this_name rest(1)
  show ?case by (auto simp: image_Un)
qed simp

text \<open>The offers that the selection leads to are exactly the eligible tasks.\<close>

lemma select_tasks_offers:
  assumes ch: "choices_ok ch" and gs: "groups_ok config nodes gs"
    and sel: "select_tasks B ch t config snap gs packed = Some jwns"
  shows "offered_task ` set (all_offers jwns) =
      {(job, node). eligible B t config nodes snap job node}"
    and "distinct nodes \<Longrightarrow> distinct (map snd (jobs config)) \<Longrightarrow>
      distinct (map offered_task (all_offers jwns))"
proof -
  have set: "set (shuffle_jobs ch (jobs config)) = set (jobs config)"
    using ch by (intro mset_eq_setD) (simp add: choices_ok_def)
  from select_jobs_selected [OF gs _ sel [unfolded select_tasks_def]] set
  have all: "list_all2 (selected B t config nodes snap packed)
      (filter (\<lambda>p. canRun (snd p)) (shuffle_jobs ch (jobs config))) jwns"
    by auto
  have "distinct (map snd (filter (\<lambda>p. canRun (snd p)) (shuffle_jobs ch (jobs config))))"
    if "distinct (map snd (jobs config))"
  proof -
    have "mset (map snd (shuffle_jobs ch (jobs config))) = mset (map snd (jobs config))"
      using ch by (simp add: choices_ok_def)
    from mset_eq_imp_distinct_iff [OF this] that show ?thesis by (simp add: distinct_map_filter)
  qed
  with selected_offers_distinct [OF all]
  show "distinct nodes \<Longrightarrow> distinct (map snd (jobs config)) \<Longrightarrow>
      distinct (map offered_task (all_offers jwns))" by blast
  show "offered_task ` set (all_offers jwns) =
      {(job, node). eligible B t config nodes snap job node}"
  proof (intro set_eqI iffI)
    fix x assume "x \<in> offered_task ` set (all_offers jwns)"
    then obtain j n where j: "j \<in> set jwns" "n \<in> set (jwn_nodes j)" "x = (jwn_job j, n)"
      by (auto simp: all_offers_def job_offers_def offered_task_def)
    from list_all2_partner(2) [OF all j(1)] obtain p where p: "selected B t config nodes snap packed p j"
      by blast
    from selected_facts(1,2) [OF p] j show "x \<in> {(job, node). eligible B t config nodes snap job node}"
      by simp
  next
    fix x assume "x \<in> {(job, node). eligible B t config nodes snap job node}"
    then obtain job node where x: "x = (job, node)" and el: "eligible B t config nodes snap job node"
      by auto
    then obtain p where pin: "p \<in> set (filter (\<lambda>p. canRun (snd p)) (shuffle_jobs ch (jobs config)))"
      and p: "snd p = job"
      by (auto simp: eligible_def set)
    from list_all2_partner(1) [OF all pin] obtain j where j: "j \<in> set jwns"
      and sel: "selected B t config nodes snap packed p j"
      by blast
    from selected_facts(2) [OF sel] el p have "node \<in> set (jwn_nodes j)"
      by (simp add: eligible_def)
    then have "(j\<lparr>jwn_nodes := []\<rparr>, node) \<in> set (all_offers jwns)"
      using j by (auto simp: all_offers_def job_offers_def)
    moreover have "offered_task (j\<lparr>jwn_nodes := []\<rparr>, node) = x"
      using selected_facts(1) [OF sel] p by (simp add: offered_task_def x)
    ultimately show "x \<in> offered_task ` set (all_offers jwns)" by force
  qed
qed

lemma mkJobWithNodes_nonneg:
  assumes "mkJobWithNodes config job packed = Some j" and "\<forall>a \<in> set (job_resources job). 0 \<le> a"
  shows "needs_nonneg j"
proof -
  from assms(1) obtain rs where j: "nodeGroupToResources j = rs" and
    rs: "list_all2 (\<lambda>ngid y. (if map_of packed ngid = None \<or> ngid \<ge> length (levelIDToResourceID config) then None
          else map_option (\<lambda>amounts. (ngid, \<lparr>ngr_job = amounts, ngr_nodes = ngid\<rparr>))
            (those (map (\<lambda>rid.
               if rid < length (job_resources job) then Some (job_resources job ! rid) else None)
               (levelIDToResourceID config ! ngid)))) = Some y) [0..<length packed] rs"
    by (auto simp: mkJobWithNodes_def dest!: those_map_list_all2)
  have "0 \<le> a" if "(g, ngr) \<in> set rs" "a \<in> set (ngr_job ngr)" for g ngr a
  proof -
    from list_all2_partner(2) [OF rs that(1)] obtain ngid where
      "those (map (\<lambda>rid. if rid < length (job_resources job) then Some (job_resources job ! rid) else None)
         (levelIDToResourceID config ! ngid)) = Some (ngr_job ngr)"
      by (auto split: if_splits)
    from list_all2_partner(2) [OF those_map_list_all2 [OF this] that(2)] assms(2) show ?thesis
      by (auto split: if_splits)
  qed
  with j show ?thesis by (auto simp: needs_nonneg_def)
qed

lemma select_tasks_nonneg:
  assumes ch: "choices_ok ch" and gs: "groups_ok config nodes gs"
    and sel: "select_tasks B ch t config snap gs packed = Some jwns"
    and nn: "\<forall>p \<in> set (jobs config). \<forall>a \<in> set (job_resources (snd p)). 0 \<le> a"
  shows "\<forall>j \<in> set jwns. needs_nonneg j"
proof
  fix j assume j: "j \<in> set jwns"
  have set: "set (shuffle_jobs ch (jobs config)) = set (jobs config)"
    using ch by (intro mset_eq_setD) (simp add: choices_ok_def)
  from select_jobs_selected [OF gs _ sel [unfolded select_tasks_def]] set
  have "list_all2 (selected B t config nodes snap packed)
      (filter (\<lambda>p. canRun (snd p)) (shuffle_jobs ch (jobs config))) jwns"
    by auto
  from list_all2_partner(2) [OF this j] set obtain p where "p \<in> set (jobs config)"
    and "mkJobWithNodes config (snd p) packed = Some (j\<lparr>jwn_nodes := []\<rparr>)"
    by (auto simp: selected_def)
  with mkJobWithNodes_nonneg [OF this(2)] nn show "needs_nonneg j" by simp
qed

text \<open>What holds of the runner whenever it is called on an eligible task, holds after the round.\<close>

lemma try_to_schedule_runner:
  assumes "try_to_schedule offs cb n j (P, r) = Some (ret, (P', r'))" and "I r"
    and "\<And>ret r'. cb (jwn_job j) n r = Some (ret, r') \<Longrightarrow> I r'"
  shows "I r'"
  using assms(1) by (cases rule: try_to_schedule_cases) (use assms(2,3) in auto)

lemma offer_run_runner:
  assumes "offer_run offs cb os (P, r) = Some (b, ts, (P', r'))" and "I r"
    and "\<And>jn r ret r'. jn \<in> set os \<Longrightarrow> I r \<Longrightarrow> cb (jwn_job (fst jn)) (snd jn) r = Some (ret, r') \<Longrightarrow> I r'"
  shows "I r'"
  using assms
proof (induction os arbitrary: P r ts)
  case (Cons jn os)
  obtain j n where jn: "jn = (j, n)" by (cases jn)
  have here: "I r1" if "try_to_schedule offs cb n j (P, r) = Some (ret, (P1, r1))" for ret P1 r1
    using that Cons.prems(2)
  proof (rule try_to_schedule_runner)
    show "I r2" if "cb (jwn_job j) n r = Some (ret2, r2)" for ret2 r2
      using Cons.prems(3) [of jn r ret2 r2] Cons.prems(2) that jn by simp
  qed
  have rest: "I r2" if "x \<in> set os" "I r1" "cb (jwn_job (fst x)) (snd x) r1 = Some (ret2, r2)"
    for x r1 ret2 r2
    using Cons.prems(3) [of x r1 ret2 r2] that by simp
  from Cons.prems(1) [unfolded jn] show ?case
  proof (cases rule: offer_run_Cons_cases)
    case (ran P1 r1 ts1)
    show ?thesis by (rule Cons.IH [OF ran(2) here [OF ran(1)] rest])
  next
    case (did_not P1 r1)
    show ?thesis by (rule Cons.IH [OF did_not(2) here [OF did_not(1)] rest])
  next
    case (stop P1 r1)
    with here [OF stop(1)] show ?thesis by simp
  qed
qed simp

lemma select_tasks_made:
  assumes ch: "choices_ok ch" and gs: "groups_ok config nodes gs"
    and sel: "select_tasks B ch t config snap gs packed = Some jwns"
    and "(j, n) \<in> set (all_offers jwns)"
  shows "mkJobWithNodes config (jwn_job j) packed = Some j"
proof -
  from assms(4) obtain j' where j': "j' \<in> set jwns" and j: "j = j'\<lparr>jwn_nodes := []\<rparr>"
    by (auto simp: all_offers_def job_offers_def)
  have set: "set (shuffle_jobs ch (jobs config)) = set (jobs config)"
    using ch by (intro mset_eq_setD) (simp add: choices_ok_def)
  from select_jobs_selected [OF gs _ sel [unfolded select_tasks_def]] set
  have "list_all2 (selected B t config nodes snap packed)
      (filter (\<lambda>p. canRun (snd p)) (shuffle_jobs ch (jobs config))) jwns"
    by auto
  from list_all2_partner(2) [OF this j'] obtain p where "selected B t config nodes snap packed p j'"
    by auto
  with selected_facts(1) [OF this] j show ?thesis by (simp add: selected_def)
qed

text \<open>An offer that is made is a call to the runner, unless the task does not fit.\<close>

lemma offer_run_calls:
  assumes "offer_run offs cb os (P, r) = Some (b, ts, (P', r'))"
    and "\<forall>jn \<in> set os. needs_nonneg (fst jn)" and "\<not> b" and "(j, n) \<in> set os"
    and call: "\<And>r ret r'. cb (jwn_job j) n r = Some (ret, r') \<Longrightarrow> J r'"
    and stable: "\<And>j n r ret r'. J r \<Longrightarrow> cb j n r = Some (ret, r') \<Longrightarrow> J r'"
  shows "J r' \<or> unfit offs P' (j, n)"
  using assms(1-4)
proof (induction os arbitrary: P r ts)
  case (Cons jn os)
  obtain j1 n1 where jn: "jn = (j1, n1)" by (cases jn)
  from Cons.prems have nn: "\<forall>jn \<in> set os. needs_nonneg (fst jn)" and nn1: "needs_nonneg j1"
    by (auto simp: jn)
  have step: "J r' \<or> unfit offs P' (j, n)"
    if att: "try_to_schedule offs cb n1 j1 (P, r) = Some (ret, (P1, r1))"
      and rest: "offer_run offs cb os (P1, r1) = Some (b, ts1, (P', r'))" for ret P1 r1 ts1
  proof (cases "(j1, n1) = (j, n)")
    case False
    with Cons.IH [OF rest nn] Cons.prems(3,4) jn show ?thesis by auto
  next
    case True
    have keep: "J r'" if "J r1"
      using rest that by (rule offer_run_runner [where I = J]) (rule stable)
    from att have "unfit offs P (j, n) \<and> P1 = P \<or> J r1"
      by (cases rule: try_to_schedule_cases) (use True call in auto)
    with keep offer_run_complete(1) [OF rest nn] show ?thesis
      by (auto simp: unfit_def dest: chain_updates_shrinks)
  qed
  from Cons.prems(1) [unfolded jn] show ?case
    by (cases rule: offer_run_Cons_cases) (use step Cons.prems(3) in auto)
qed simp


section \<open>Orphans\<close>

definition job_can_run :: "Config \<Rightarrow> RunningTask \<Rightarrow> bool" where
  "job_can_run config rt = (case map_of (jobs config) (rt_job rt) of Some job \<Rightarrow> canRun job | None \<Rightarrow> False)"

text \<open>A running task is an orphan unless its job can run and a node of its name is enabled.\<close>

definition is_orphan :: "Config \<Rightarrow> Node list \<Rightarrow> RunningTask \<Rightarrow> bool" where
  "is_orphan config nodes rt \<longleftrightarrow>
     \<not> (job_can_run config rt \<and> (\<exists>n \<in> set nodes. node_enabled n \<and> node_name n = rt_node rt))"

lemma AList_update_map:
  assumes "um_wf m" and "map_of m k = Some v"
  shows "AList.update k w m = map (\<lambda>(k', v'). (k', if k' = k then w else v')) m"
  using assms
proof (induction m)
  case (Cons p m)
  have "map (\<lambda>(k', v'). (k', if k' = k then w else v')) m = m" if "k \<notin> fst ` set m"
    using that by (intro map_idI) force
  with Cons show ?case by (cases p) (auto simp: um_wf_def map_of_eq_Some_iff)
qed simp

lemma um_wf_map_values: "um_wf (map (\<lambda>(k, v). (k, f k v)) m) = um_wf m"
  by (simp add: um_wf_def comp_def case_prod_unfold)

definition orphans_after :: "Config \<Rightarrow> Node list \<Rightarrow> (string \<times> RunningTask list) list \<Rightarrow> (string \<times> RunningTask list) list" where
  "orphans_after config nodes m =
     map (\<lambda>(k, ts). (k, if \<exists>n \<in> set nodes. node_enabled n \<and> node_name n = k
        then filter (\<lambda>rt. \<not> job_can_run config rt) ts else ts)) m"

lemma scan_orphans_after:
  assumes "um_wf (node_to_tasks s)"
  shows "node_to_tasks (scan_orphans config n s) = orphans_after config [n] (node_to_tasks s)"
proof (cases "node_enabled n \<and> map_of (node_to_tasks s) (node_name n) \<noteq> None")
  case True
  then obtain ts where "map_of (node_to_tasks s) (node_name n) = Some ts" by auto
  moreover from this assms have "(node_name n, ts') \<in> set (node_to_tasks s) \<Longrightarrow> ts' = ts" for ts'
    by (simp add: um_wf_def)
  ultimately show ?thesis
    using True AList_update_map [OF assms]
    by (auto simp: scan_orphans_def orphans_after_def job_can_run_def)
next
  case False
  then have "orphans_after config [n] (node_to_tasks s) = node_to_tasks s"
    unfolding orphans_after_def by (intro map_idI) (force simp: map_of_eq_None_iff)
  with False show ?thesis by (auto simp: scan_orphans_def split: option.splits)
qed

lemma orphans_after_append:
  "orphans_after config (xs @ ys) m = orphans_after config ys (orphans_after config xs m)"
  by (auto simp: orphans_after_def)

lemma orphans_after_wf [simp]: "um_wf (orphans_after config ns m) = um_wf m"
  by (simp add: orphans_after_def um_wf_map_values)

lemma subtract_resource_tasks:
  "subtract_resource offs ng n r s = Some s' \<Longrightarrow> node_to_tasks s' = node_to_tasks s"
  by (auto simp: subtract_resource_def Let_def split: option.splits)

lemma scan_node_tasks:
  assumes "scan_node config offs ng n s = Some s'" and "um_wf (node_to_tasks s)"
  shows "node_to_tasks s' = orphans_after config [n] (node_to_tasks s)"
proof -
  have "node_to_tasks s2 = node_to_tasks s1"
    if "foldO (subtract_resource offs ng n) rs s1 = Some s2" for rs s1 s2
    using that
    by (rule foldO_invariant [where I = "\<lambda>s. node_to_tasks s = node_to_tasks s1"])
      (auto dest: subtract_resource_tasks)
  with assms(1) show ?thesis
    by (auto simp: scan_node_def Let_def scan_orphans_after [OF assms(2)] split: option.splits)
qed

lemma scan_nodes_tasks:
  assumes "foldO (scan_node config offs ng) ns s = Some s'" and "um_wf (node_to_tasks s)"
  shows "node_to_tasks s' = orphans_after config ns (node_to_tasks s)"
  using assms
proof (induction ns arbitrary: s)
  case Nil
  then show ?case by (simp add: orphans_after_def)
next
  case (Cons n ns)
  then obtain s1 where 1: "scan_node config offs ng n s = Some s1"
    and 2: "foldO (scan_node config offs ng) ns s1 = Some s'"
    by (auto split: option.splits)
  from scan_node_tasks [OF 1 Cons.prems(2)] Cons.IH [OF 2] Cons.prems(2)
    orphans_after_append [of config "[n]" ns "node_to_tasks s"]
  show ?case by simp
qed

lemma scan_groups_tasks:
  assumes "foldO (\<lambda>ng. foldO (scan_node config offs ng) (group_nodes ng)) gs s = Some s'"
    and "um_wf (node_to_tasks s)"
  shows "node_to_tasks s' = orphans_after config (concat (map group_nodes gs)) (node_to_tasks s)"
  using assms
proof (induction gs arbitrary: s)
  case Nil
  then show ?case by (simp add: orphans_after_def)
next
  case (Cons ng gs)
  then obtain s1 where 1: "foldO (scan_node config offs ng) (group_nodes ng) s = Some s1"
    and 2: "foldO (\<lambda>ng. foldO (scan_node config offs ng) (group_nodes ng)) gs s1 = Some s'"
    by (auto split: option.splits)
  from scan_nodes_tasks [OF 1 Cons.prems(2)] Cons.IH [OF 2] Cons.prems(2) show ?case
    by (simp add: orphans_after_append)
qed


lemma concat_update:
  "um_wf m \<Longrightarrow>
     mset (concat (map snd (AList.update k v m))) + mset (case map_of m k of Some old \<Rightarrow> old | None \<Rightarrow> []) =
     mset (concat (map snd m)) + mset v"
  by (induction m) (auto simp: um_wf_def ac_simps split: option.splits)

lemma um_wf_update' [simp]: "um_wf m \<Longrightarrow> um_wf (AList.update k v m)"
  by (simp add: um_wf_def distinct_update)

lemma node_to_tasks_push:
  fixes m :: "(string \<times> RunningTask list) list"
  assumes "um_wf m"
  shows "mset (concat (map snd (multimap_push True k [rt] m))) = add_mset rt (mset (concat (map snd m)))"
  using concat_update [OF assms, of k "rt # (case map_of m k of Some old \<Rightarrow> old | None \<Rightarrow> [])"]
  by (simp add: multimap_push_def Let_def)

lemma set_AList_update:
  "um_wf m \<Longrightarrow> (k', v') \<in> set (AList.update k v m) \<longleftrightarrow>
     (if k' = k then v' = v else (k', v') \<in> set m)"
  by (metis um_wf_update' um_wf_def update_conv' map_of_eq_Some_iff fun_upd_apply option.inject)

definition keyed_by_node :: "(string \<times> RunningTask list) list \<Rightarrow> bool" where
  "keyed_by_node m \<longleftrightarrow> (\<forall>k ts rt. (k, ts) \<in> set m \<longrightarrow> rt \<in> set ts \<longrightarrow> rt_node rt = k)"

lemma keyed_by_node_push:
  assumes "um_wf m" and "keyed_by_node m"
  shows "keyed_by_node (multimap_push True (rt_node rt) [rt] m)"
  using assms
  by (cases "map_of m (rt_node rt)")
    (auto simp: keyed_by_node_def multimap_push_def Let_def set_AList_update
      split: if_splits dest: map_of_SomeD)

lemma node_to_tasks_of_facts:
  "um_wf m \<Longrightarrow> keyed_by_node m \<Longrightarrow>
   (let m' = fold (\<lambda>rt. multimap_push True (rt_node rt) [rt]) rts m in
    um_wf m' \<and> keyed_by_node m' \<and>
    mset (concat (map snd m')) = mset rts + mset (concat (map snd m)))"
proof (induction rts arbitrary: m)
  case (Cons rt rts)
  let ?m = "multimap_push True (rt_node rt) [rt] m"
  have "um_wf ?m" using Cons.prems(1) by (simp add: multimap_push_def Let_def)
  from Cons.IH [OF this keyed_by_node_push [OF Cons.prems]] node_to_tasks_push [OF Cons.prems(1)]
  show ?case by (simp add: Let_def)
qed simp

lemma orphans_after_concat:
  assumes "keyed_by_node m"
  shows "concat (map snd (orphans_after config nodes m)) = filter (is_orphan config nodes) (concat (map snd m))"
  using assms
proof (induction m)
  case (Cons p m)
  obtain k ts where p: "p = (k, ts)" by (cases p)
  with Cons.prems have "\<forall>rt \<in> set ts. rt_node rt = k" by (auto simp: keyed_by_node_def)
  then have "(if \<exists>n \<in> set nodes. node_enabled n \<and> node_name n = k
      then filter (\<lambda>rt. \<not> job_can_run config rt) ts else ts) = filter (is_orphan config nodes) ts"
    by (auto simp: is_orphan_def intro!: filter_cong filter_True [symmetric])
  with Cons p show ?case by (simp add: orphans_after_def keyed_by_node_def)
qed (simp add: orphans_after_def)

lemma processRunningTasks_orphans:
  assumes "processRunningTasks config rts gs offs packed = Some (orphans, P, errors)"
  shows "mset orphans = mset (filter (is_orphan config (concat (map group_nodes gs))) rts)"
proof -
  let ?m = "node_to_tasks_of rts"
  have m: "um_wf ?m" "keyed_by_node ?m" "mset (concat (map snd ?m)) = mset rts"
    using node_to_tasks_of_facts [of "[]" rts]
    by (simp_all add: node_to_tasks_of_def keyed_by_node_def Let_def)
  from assms obtain s where
    scan: "foldO (\<lambda>ng. foldO (scan_node config offs ng) (group_nodes ng)) gs
      \<lparr>node_to_tasks = ?m, node_used_resources = node_used_resources_of rts,
       scan_packed = packed, scan_errors = []\<rparr> = Some s"
    and orphans: "orphans = concat (map snd (node_to_tasks s))"
    by (auto simp: processRunningTasks_def Let_def split: option.splits if_splits)
  have "orphans = filter (is_orphan config (concat (map group_nodes gs))) (concat (map snd ?m))"
    unfolding orphans scan_groups_tasks [OF scan, simplified, OF m(1)]
    by (rule orphans_after_concat [OF m(2)])
  then show ?thesis by (simp only: mset_filter m(3))
qed

lemma groups_ok_nodes:
  assumes "groups_ok config nodes gs"
  shows "set (concat (map group_nodes gs)) = set nodes"
proof -
  have "set (group_nodes ng) = set (filter (\<lambda>n. node_level n = nodeGroupID ng) nodes)" if "ng \<in> set gs" for ng
    using assms that by (intro mset_eq_setD) (simp add: groups_ok_def)
  then have "set (concat (map group_nodes gs)) =
      {n \<in> set nodes. node_level n \<in> set (map nodeGroupID gs)}"
    by auto
  with assms show ?thesis by (auto simp: groups_ok_def)
qed

lemma schedule_parts:
  assumes "schedule B ch policies t config nodes snap cb r = Some (res, errors, st)"
  obtains gs packed0 offs orphans packed jwns policy k where
    "pack_groups ch config nodes = Some (gs, packed0, offs)"
    "processRunningTasks config (map snd (runningTasks snap)) gs offs packed0 = Some (orphans, packed, errors)"
    "select_tasks B ch t config snap gs packed = Some jwns"
    "getSchedulerPolicy policies (schedulerPolicyName config) = Inr policy"
    "policy offs cb jwns (packed, r) = Some (k, st)"
    "res = \<lparr>areTasksRunning = (runningTasks snap \<noteq> [] \<or> k > 0), orphanTasks = orphans\<rparr>"
proof -
  from assms obtain gs packed0 offs where
    1: "pack_groups ch config nodes = Some (gs, packed0, offs)"
    by (auto simp: schedule_def bind_eq_Some_conv split: if_splits)
  with assms obtain orphans packed errors' where
    2: "processRunningTasks config (map snd (runningTasks snap)) gs offs packed0 =
      Some (orphans, packed, errors')"
    by (auto simp: schedule_def bind_eq_Some_conv split: if_splits)
  with 1 assms obtain jwns where 3: "select_tasks B ch t config snap gs packed = Some jwns"
    by (auto simp: schedule_def bind_eq_Some_conv split: if_splits)
  with 1 2 assms obtain policy where
    4: "getSchedulerPolicy policies (schedulerPolicyName config) = Inr policy"
    by (auto simp: schedule_def split: if_splits sum.splits)
  with 1 2 3 assms obtain k st' where 5: "policy offs cb jwns (packed, r) = Some (k, st')"
    by (auto simp: schedule_def split: if_splits)
  from 1 2 3 4 5 assms have "errors' = errors" "st' = st"
    "res = \<lparr>areTasksRunning = (runningTasks snap \<noteq> [] \<or> k > 0), orphanTasks = orphans\<rparr>"
    by (auto simp: schedule_def split: if_splits)
  with that 1 2 3 4 5 show thesis by blast
qed

lemma pack_groups_ok:
  assumes "choices_ok ch" and "pack_groups ch config nodes = Some (gs, packed, offs)"
  shows "groups_ok config nodes gs"
  using assms grouped_nodes_ok [OF assms(1)]
  by (auto simp: pack_groups_def bind_eq_Some_conv Let_def)


lemma default_policies:
  assumes "registerDefaultSchedulerPolicies draw unit_test [] = Some policies"
    and "name \<noteq> ''unittest''" and "getSchedulerPolicy policies name = Inr policy"
  shows "policy \<in> {round_robin_policy, ranked_priority_schedule, long_tail_schedule,
      randomized_priority_schedule draw}"
  using assms
  by (auto simp: registerDefaultSchedulerPolicies_def registerSchedulerPolicy_def um_emplace_def
      getSchedulerPolicy_def findPolicyOrThrow_def split: if_splits)


section \<open>Properties\<close>

text \<open>A deployment with one level of nodes, one resource, and the given jobs.\<close>

definition example_sched_config :: "Job list \<Rightarrow> Config" where
  "example_sched_config js =
     (example_config js)\<lparr>resourcesByLevel := [[1], [0]], levelIDToResourceID := [[0], []],
        resourceNames := st_init [''cpu'']\<rparr>"

definition example_choices :: sched_choices where
  "example_choices = \<lparr>groups_order = (\<lambda>xs. xs), shuffle_nodes = (\<lambda>ns. ns), shuffle_jobs = (\<lambda>js. js)\<rparr>"

definition example_boost :: boost where
  "example_boost =
     \<lparr>regex_error = (\<lambda>_. None), regex_search = (\<lambda>s r. False), pair_hash = (\<lambda>_. 0)\<rparr>"

definition example_nodes :: "Node list" where
  "example_nodes = [Node 0 ''n0'' 0 True None [], Node 1 ''n1'' 0 True None []]"

definition example_policies :: "(string \<times> 'r policy) list" where
  "example_policies =
     [(''long_tail'', long_tail_schedule),
      (''randomized_priority'', randomized_priority_schedule (\<lambda>i ws. i mod length ws)),
      (''ranked_priority'', ranked_priority_schedule),
      (''roundrobin'', round_robin_policy),
      (''unittest'', round_robin_policy)]"

definition example_cpu_job :: "nat \<Rightarrow> string \<Rightarrow> nat list \<Rightarrow> Job" where
  "example_cpu_job i name deps = (example_job i name deps)\<lparr>job_resources := [1]\<rparr>"

text \<open>The second node is busy with a task of a job that was deleted.\<close>

definition example_snapshot :: TaskStatusSnapshot where
  "example_snapshot =
     \<lparr>rows = [\<lparr>isLoaded = True, row_statuses = []\<rparr>],
      runningTasks = [((1, 1), example_task\<lparr>rt_job := ''gone'', rt_node := ''n1'',
        nodeResources := [\<lparr>nr_node = ''n1'', nr_resources = [\<lparr>res_name = ''cpu'', res_amount = 1\<rparr>]\<rparr>]\<rparr>)]\<rparr>"

text \<open>A deployment whose instance node has the name of a host.\<close>

definition collision_config :: Config where
  "collision_config =
     (example_config [(example_job 0 ''a'' [])\<lparr>levelForTasks := 2, job_resources := [1],
        job_filters := [emptyJobFilters, emptyJobFilters, emptyJobFilters]\<rparr>])
       \<lparr>levels := st_init [''instance'', ''worker'', ''host''], resourcesByLevel := [[0], [0], [1]],
        levelIDToResourceID := [[], [], [0]], resourceNames := st_init [''cpu'']\<rparr>"

definition collision_nodes :: "Node list" where
  "collision_nodes =
     [Node 0 ''h'' 0 True None [], Node 0 ''h'' 2 True (Some (Node 0 ''h'' 0 True None [])) []]"

definition collision_snapshot :: TaskStatusSnapshot where
  "collision_snapshot =
     \<lparr>rows = [\<lparr>isLoaded = True, row_statuses = []\<rparr>],
      runningTasks = [((1, 0), example_task\<lparr>rt_job := ''b'', rt_node := ''h'',
        nodeResources := [\<lparr>nr_node = ''h'', nr_resources = [\<lparr>res_name = ''cpu'', res_amount = 1\<rparr>]\<rparr>]\<rparr>)]\<rparr>"

lemmas schedule_eval =
  schedule_def pack_groups_def group_nodes_by_level_def makeResourceToIndex_def reorderNodes_def
  packResourcesInto_def group_amounts_def pack_node_def um_emplace_def processRunningTasks_def
  node_to_tasks_of_def node_used_resources_of_def multimap_push_def scan_node_def scan_orphans_def
  subtract_resource_def unknown_node_error_def select_tasks_def select_job_def mkJobWithNodes_def
  group_of_def select_node_def may_start_def getRow_def row_getPtr_def getPtr_def
  shouldRunOn_def doesPass_def doesPass_string_def canRun_def isValid_def getSchedulerPolicy_def
  findPolicyOrThrow_def round_robin_policy_def try_to_schedule_def node_updates_def
  node_offset_def subtract_update_def slot_def slot_set_def Let_def

lemmas schedule_examples =
  example_sched_config_def example_config_def example_choices_def example_boost_def
  example_nodes_def example_policies_def example_cpu_job_def example_job_def example_snapshot_def
  example_task_def example_runner_def emptyJobFilters_def st_init_def st_name_def st_lookup_def

lemma example_choices_ok: "choices_ok example_choices"
  by (simp add: choices_ok_def example_choices_def)

lemma example_policies_registered:
  "registerDefaultSchedulerPolicies (\<lambda>i ws. i mod length ws) round_robin_policy [] = Some example_policies"
  by (simp add: registerDefaultSchedulerPolicies_def registerSchedulerPolicy_def um_emplace_def
      example_policies_def)

lemma example_schedule_run:
  "schedule example_boost example_choices example_policies 100
     (example_sched_config [example_cpu_job 0 ''a'' []]) example_nodes example_snapshot example_runner [] =
   Some (\<lparr>areTasksRunning = True, orphanTasks = map snd (runningTasks example_snapshot)\<rparr>, [],
     ([(0, [0, 0]), (1, [])], [(''a'', ''n0'')]))"
  by (simp add: schedule_eval schedule_examples)


text \<open>C3: a round of scheduling calls the runner only on tasks that may start.  What
  every call on an eligible task keeps true of the runner's state is true after
  the round: a task is eligible if its job is configured and can run, its node is
  of the job's level and accepted by the job, the task is not running, done,
  failed or in backoff, and all the tasks it depends on are done.\<close>

theorem schedule_runs_only_eligible:
  assumes "choices_ok ch" and "registerDefaultSchedulerPolicies draw unit_test [] = Some policies"
    and "schedulerPolicyName config \<noteq> ''unittest''"
    and "schedule B ch policies t config nodes snap cb r = Some (res, errors, (P, r'))"
    and "I r"
    and "\<And>job node r ret r'. eligible B t config nodes snap job node \<Longrightarrow> I r \<Longrightarrow>
      cb job node r = Some (ret, r') \<Longrightarrow> I r'"
  shows "I r'"
proof -
  from assms(4) obtain gs packed0 offs orphans packed jwns policy k where
    pack: "pack_groups ch config nodes = Some (gs, packed0, offs)" and
    sel: "select_tasks B ch t config snap gs packed = Some jwns" and
    pol: "getSchedulerPolicy policies (schedulerPolicyName config) = Inr policy" and
    run: "policy offs cb jwns (packed, r) = Some (k, (P, r'))"
    by (rule schedule_parts)
  from scheduler_policy.offers [OF default_policies_cases [OF default_policies [OF assms(2,3) pol]] run]
  obtain order b ts where order: "mset order = mset (all_offers jwns)"
    and go: "offer_run offs cb order (packed, r) = Some (b, ts, (P, r'))"
    by blast
  have el: "eligible B t config nodes snap (jwn_job (fst jn)) (snd jn)" if "jn \<in> set order" for jn
  proof -
    from that mset_eq_setD [OF order] have "offered_task jn \<in> offered_task ` set (all_offers jwns)"
      by simp
    with select_tasks_offers(1) [OF assms(1) pack_groups_ok [OF assms(1) pack] sel] show ?thesis
      by (simp add: offered_task_def)
  qed
  show ?thesis by (rule offer_run_runner [where I = I, OF go assms(5)], rule assms(6), rule el)
qed

theorem schedule_runs_only_eligible_witness:
  "\<exists>res errors P started. schedule example_boost example_choices example_policies 100
     (example_sched_config [example_cpu_job 0 ''a'' []]) example_nodes example_snapshot example_runner [] =
       Some (res, errors, (P, started)) \<and> started \<noteq> [] \<and> (\<forall>x \<in> set started. fst x = ''a'')"
proof -
  have "\<forall>x \<in> set [(''a'', ''n0'')]. fst x = ''a''"
    by (rule schedule_runs_only_eligible [OF example_choices_ok example_policies_registered _
          example_schedule_run, where I = "\<lambda>started. \<forall>x \<in> set started. fst x = ''a''"])
      (auto simp: eligible_def example_sched_config_def example_config_def example_cpu_job_def
        example_job_def example_runner_def)
  with example_schedule_run show ?thesis by fastforce
qed

text \<open>C9: a round of scheduling offers every eligible task to the runner unless it
  does not fit.  If the runner never asks to stop and no job asks for a negative
  amount, then whatever a call on the task makes true of the runner's state, and no
  later call undoes, is true after the round, or the task does not fit in the
  resources that are left at the end.\<close>

theorem schedule_offers_every_eligible:
  assumes "choices_ok ch" and "registerDefaultSchedulerPolicies draw unit_test [] = Some policies"
    and "schedulerPolicyName config \<noteq> ''unittest''"
    and "schedule B ch policies t config nodes snap cb r = Some (res, errors, (P, r'))"
    and "pack_groups ch config nodes = Some (gs, packed0, offs)"
    and "\<forall>p \<in> set (jobs config). \<forall>a \<in> set (job_resources (snd p)). 0 \<le> a"
    and "\<And>job node r r'. cb job node r \<noteq> Some (DoNotRunMoreTasks, r')"
    and "eligible B t config nodes snap job node"
    and "\<And>r ret r'. cb job node r = Some (ret, r') \<Longrightarrow> J r'"
    and "\<And>j n r ret r'. J r \<Longrightarrow> cb j n r = Some (ret, r') \<Longrightarrow> J r'"
  shows "J r' \<or>
    (\<exists>jwn packed. mkJobWithNodes config job packed = Some jwn \<and> unfit offs P (jwn, node))"
proof -
  from assms(4,5) obtain orphans packed jwns policy k where
    sel: "select_tasks B ch t config snap gs packed = Some jwns" and
    pol: "getSchedulerPolicy policies (schedulerPolicyName config) = Inr policy" and
    run: "policy offs cb jwns (packed, r) = Some (k, (P, r'))"
    by (elim schedule_parts) auto
  note gs = pack_groups_ok [OF assms(1,5)]
  from scheduler_policy.offers [OF default_policies_cases [OF default_policies [OF assms(2,3) pol]] run]
  obtain order b ts where order: "mset order = mset (all_offers jwns)"
    and go: "offer_run offs cb order (packed, r) = Some (b, ts, (P, r'))"
    by blast
  note set = mset_eq_setD [OF order]
  have nn: "\<forall>jn \<in> set order. needs_nonneg (fst jn)"
    using select_tasks_nonneg [OF assms(1) gs sel assms(6)]
    by (auto simp: set all_offers_def job_offers_def)
  have "\<not> b"
    using offer_run_complete(3) [OF go nn] assms(7) by (auto simp: told_to_stop_def)
  from assms(8) select_tasks_offers(1) [OF assms(1) gs sel]
  have "(job, node) \<in> offered_task ` set (all_offers jwns)" by simp
  then obtain j where j: "(j, node) \<in> set (all_offers jwns)" "jwn_job j = job"
    by (auto simp: offered_task_def)
  from offer_run_calls [OF go nn \<open>\<not> b\<close>, of j node J] j set assms(9,10)
  have "J r' \<or> unfit offs P (j, node)" by blast
  with select_tasks_made [OF assms(1) gs sel j(1)] j(2) show ?thesis by auto
qed

theorem schedule_offers_every_eligible_witness:
  "\<exists>res errors P started. schedule example_boost example_choices example_policies 100
     (example_sched_config [example_cpu_job 0 ''a'' []]) example_nodes example_snapshot example_runner [] =
       Some (res, errors, (P, started)) \<and>
     ((''a'', ''n0'') \<in> set started \<or>
      (\<exists>jwn packed. mkJobWithNodes (example_sched_config [example_cpu_job 0 ''a'' []])
         (example_cpu_job 0 ''a'' []) packed = Some jwn \<and>
         unfit example_offsets P (jwn, Node 0 ''n0'' 0 True None [])))"
proof -
  let ?cfg = "example_sched_config [example_cpu_job 0 ''a'' []]"
  let ?gs = "[\<lparr>nodeGroupID = 0, resourceToIndex = [(''cpu'', 0)], group_nodes = example_nodes\<rparr>,
      \<lparr>nodeGroupID = 1, resourceToIndex = [], group_nodes = []\<rparr>]"
  have pack: "pack_groups example_choices ?cfg example_nodes =
      Some (?gs, [(0, [1, 1]), (1, [])], example_offsets)"
    by (simp add: schedule_eval schedule_examples example_offsets_def)
  have "eligible example_boost 100 ?cfg example_nodes example_snapshot
      (example_cpu_job 0 ''a'' []) (Node 0 ''n0'' 0 True None [])"
    by (simp add: eligible_def schedule_examples schedule_eval status_at_def)
  from schedule_offers_every_eligible [OF example_choices_ok example_policies_registered _
      example_schedule_run pack _ _ this, where J = "\<lambda>started. (''a'', ''n0'') \<in> set started"]
  have "(''a'', ''n0'') \<in> set [(''a'', ''n0'')] \<or>
      (\<exists>jwn packed. mkJobWithNodes ?cfg (example_cpu_job 0 ''a'' []) packed = Some jwn \<and>
         unfit example_offsets [(0, [0, 0]), (1, [])] (jwn, Node 0 ''n0'' 0 True None []))"
    by (simp add: schedule_examples)
  with example_schedule_run show ?thesis by auto
qed

text \<open>C31: the orphans that a round reports are exactly the running tasks whose job is
  not configured or cannot run, or for whose node no enabled node of that name
  is left, each as often as it is running.\<close>

theorem schedule_orphans_exact:
  assumes "choices_ok ch"
    and "schedule B ch policies t config nodes snap cb r = Some (res, errors, st)"
  shows "mset (orphanTasks res) =
    mset (filter (is_orphan config nodes) (map snd (runningTasks snap)))"
proof -
  from assms(2) obtain gs packed0 offs orphans packed where
    pack: "pack_groups ch config nodes = Some (gs, packed0, offs)" and
    scan: "processRunningTasks config (map snd (runningTasks snap)) gs offs packed0 =
      Some (orphans, packed, errors)" and
    res: "orphanTasks res = orphans"
    by (elim schedule_parts) auto
  have "is_orphan config (concat (map group_nodes gs)) = is_orphan config nodes"
    using groups_ok_nodes [OF pack_groups_ok [OF assms(1) pack]]
    by (simp add: is_orphan_def fun_eq_iff del: set_concat)
  with processRunningTasks_orphans [OF scan] res show ?thesis by simp
qed

theorem schedule_orphans_exact_witness:
  "\<exists>res errors st. schedule example_boost example_choices example_policies 100
     (example_sched_config [example_cpu_job 0 ''a'' []]) example_nodes example_snapshot example_runner [] =
       Some (res, errors, st) \<and>
     mset (orphanTasks res) = mset (filter
       (is_orphan (example_sched_config [example_cpu_job 0 ''a'' []]) example_nodes)
       (map snd (runningTasks example_snapshot))) \<and> orphanTasks res \<noteq> []"
  using schedule_orphans_exact [OF example_choices_ok example_schedule_run] example_schedule_run
  by (auto simp: example_snapshot_def)



end
