(* ===== verification/Worker_Set_ID.thy ===== *)
theory Worker_Set_ID
  imports Thrift_Types "HOL-Library.Multiset"
begin

text \<open>
  \<^verbatim>\<open>remote/WorkerSetID.h\<close> and the structs of the worker protocol.  The scheduler
  identifies the set of connected workers by a hash that does not depend on the
  order of the workers, and numbers the versions of the set; versions are
  compared in a way that survives their overflow.
\<close>

section \<open>Model\<close>

subsection \<open>Structs of the worker protocol\<close>

record MachinePortLock =
  hostname :: string
  lock_port :: int

record ServiceAddress =
  ip_or_host :: string
  addr_port :: int

text \<open>The measured resources of a worker are not read by the modelled code.\<close>

record BistroWorker =
  shard :: string
  machineLock :: MachinePortLock
  addr :: ServiceAddress
  worker_id :: BistroInstanceID
  heartbeatPeriodSec :: int
  protocolVersion :: int

record SetHash =
  addAll :: u64
  xorAll :: u64

record WorkerSetHash =
  hash_startTime :: SetHash
  hash_rand :: SetHash
  numWorkers :: int

record WorkerSetID =
  wsid_schedulerID :: BistroInstanceID
  wsid_version :: u64
  wsid_hash :: WorkerSetHash

record SchedulerHeartbeatResponse =
  response_id :: BistroInstanceID
  resp_maxHealthcheckGap :: int
  resp_heartbeatGracePeriod :: int
  resp_loseUnhealthyWorkerAfter :: int
  resp_workerCheckInterval :: int
  resp_workerState :: int
  resp_protocolVersion :: int
  resp_workerSetID :: WorkerSetID

definition kProtocolVersion :: int where "kProtocolVersion = 2"

text \<open>The values that the fields have by default.\<close>

definition emptySetHash :: SetHash where
  "emptySetHash = \<lparr>addAll = 0, xorAll = 0\<rparr>"

definition emptyWorkerSetHash :: WorkerSetHash where
  "emptyWorkerSetHash = \<lparr>hash_startTime = emptySetHash, hash_rand = emptySetHash, numWorkers = 0\<rparr>"

subsection \<open>The hash of a set of workers\<close>

definition addValueToHash :: "u64 \<Rightarrow> SetHash \<Rightarrow> SetHash" where
  "addValueToHash v h = h\<lparr>xorAll := xorAll h XOR v, addAll := addAll h + v\<rparr>"

definition removeValueFromHash :: "u64 \<Rightarrow> SetHash \<Rightarrow> SetHash" where
  "removeValueFromHash v h = h\<lparr>xorAll := xorAll h XOR v, addAll := addAll h - v\<rparr>"

definition addWorkerIDToHash :: "BistroInstanceID \<Rightarrow> WorkerSetHash \<Rightarrow> WorkerSetHash" where
  "addWorkerIDToHash i s =
     s\<lparr>numWorkers := numWorkers s + 1,
       hash_startTime := addValueToHash (startTime i) (hash_startTime s),
       hash_rand := addValueToHash (rand i) (hash_rand s)\<rparr>"

text \<open>\<open>None\<close> is the failure of the \<^verbatim>\<open>CHECK\<close> that the set is not empty.\<close>

definition removeWorkerIDFromHash :: "BistroInstanceID \<Rightarrow> WorkerSetHash \<Rightarrow> WorkerSetHash option" where
  "removeWorkerIDFromHash i s =
     (if 0 < numWorkers s then
        Some (s\<lparr>numWorkers := numWorkers s - 1,
                hash_startTime := removeValueFromHash (startTime i) (hash_startTime s),
                hash_rand := removeValueFromHash (rand i) (hash_rand s)\<rparr>)
      else None)"

subsection \<open>Comparison of versions\<close>

text \<open>The conversion to a signed integer, as the source writes it out.\<close>

definition makeSigned :: "u64 \<Rightarrow> int" where
  "makeSigned v = (if v < 0x8000000000000000 then uint v
     else - (2 ^ 63) + uint (v - 0x8000000000000000))"

text \<open>\<open>None\<close> is the \<^verbatim>\<open>LOG(FATAL)\<close> for versions that differ by \<open>2 ^ 63\<close>.\<close>

definition WorkerSetIDEarlierThan :: "u64 \<Rightarrow> u64 \<Rightarrow> bool option" where
  "WorkerSetIDEarlierThan a b =
     (if makeSigned (a - b) \<ge> 0 then Some False
      else if makeSigned (b - a) > 0 then Some True
      else None)"


section \<open>The hash as a function of the set\<close>

text \<open>The hash of a multiset of worker instances, added one by one in any order.\<close>

definition hash_of_workers :: "BistroInstanceID multiset \<Rightarrow> WorkerSetHash" where
  "hash_of_workers = fold_mset addWorkerIDToHash emptyWorkerSetHash"

lemma addValueToHash_commute: "addValueToHash v (addValueToHash w h) = addValueToHash w (addValueToHash v h)"
  by (simp add: addValueToHash_def ac_simps)

lemma remove_add_value [simp]: "removeValueFromHash v (addValueToHash v h) = h"
  by (cases h) (simp add: removeValueFromHash_def addValueToHash_def xor.assoc)

lemma addWorkerIDToHash_commute:
  "addWorkerIDToHash i (addWorkerIDToHash j s) = addWorkerIDToHash j (addWorkerIDToHash i s)"
  by (simp add: addWorkerIDToHash_def addValueToHash_commute)

interpretation worker_hash: comp_fun_commute addWorkerIDToHash
  by unfold_locales (simp add: fun_eq_iff addWorkerIDToHash_commute)

lemma hash_of_workers_simps [simp]:
  "hash_of_workers {#} = emptyWorkerSetHash"
  "hash_of_workers (add_mset i M) = addWorkerIDToHash i (hash_of_workers M)"
  by (simp_all add: hash_of_workers_def worker_hash.fold_mset_add_mset)

lemma numWorkers_hash: "numWorkers (hash_of_workers M) = int (size M)"
  by (induction M) (simp_all add: emptyWorkerSetHash_def addWorkerIDToHash_def)

lemma remove_add_worker:
  "0 \<le> numWorkers s \<Longrightarrow> removeWorkerIDFromHash i (addWorkerIDToHash i s) = Some s"
  by (cases s) (simp add: removeWorkerIDFromHash_def addWorkerIDToHash_def)

lemma removeWorkerIDFromHash_hash:
  assumes "i \<in># M"
  shows "removeWorkerIDFromHash i (hash_of_workers M) = Some (hash_of_workers (M - {#i#}))"
proof -
  from assms obtain M' where "M = add_mset i M'" by (auto dest: multi_member_split)
  then show ?thesis by (simp add: remove_add_worker numWorkers_hash)
qed


section \<open>Versions\<close>

lemma sint_u64: "sint (v :: u64) = (if uint v < 2 ^ 63 then uint v else uint v - 2 ^ 64)"
proof -
  have "0 \<le> uint v" "uint v < 2 ^ 64" using uint_lt2p [of v] by simp_all
  then have "(uint v + 2 ^ 63) mod 2 ^ 64 = (if uint v < 2 ^ 63 then uint v + 2 ^ 63 else uint v - 2 ^ 63)"
    using mod_pos_pos_trivial [of "uint v + 2 ^ 63" "2 ^ 64"]
      mod_pos_pos_trivial [of "uint v - 2 ^ 63" "2 ^ 64"] minus_mod_self2 [of "uint v + 2 ^ 63" "2 ^ 64"]
    by auto
  then show ?thesis
    by (simp add: sint_uint signed_take_bit_eq_take_bit_shift take_bit_eq_mod)
qed

lemma makeSigned_sint: "makeSigned v = sint v"
  by (simp add: makeSigned_def sint_u64 word_less_def uint_sub_if')

lemma sint_of_int_u64: "- (2 ^ 63) \<le> k \<Longrightarrow> k < 2 ^ 63 \<Longrightarrow> sint (of_int k :: u64) = k"
  by (simp add: sint_sbintrunc' signed_take_bit_int_eq_self)

lemma earlier_of_int:
  assumes "a - b < 2 ^ 63" "b - a < 2 ^ 63"
  shows "WorkerSetIDEarlierThan (of_int a) (of_int b) = Some (a < b)"
proof -
  have "makeSigned (of_int a - of_int b) = a - b" "makeSigned (of_int b - of_int a) = b - a"
    using assms sint_of_int_u64 [of "a - b"] sint_of_int_u64 [of "b - a"] by (simp_all add: makeSigned_sint)
  then show ?thesis by (simp add: WorkerSetIDEarlierThan_def)
qed

text \<open>The comparison is total but for versions exactly half the range apart.\<close>

lemma earlier_fatal_iff: "WorkerSetIDEarlierThan a b = None \<longleftrightarrow> a - b = 0x8000000000000000"
proof -
  have "uint (b - a) = (if a - b = 0 then 0 else 2 ^ 64 - uint (a - b))"
    using uint_lt2p [of b] by (simp add: uint_sub_if' word_uint_eq_iff) (use uint_ge_0 [of a] in linarith)
  then show ?thesis
    by (auto simp: WorkerSetIDEarlierThan_def makeSigned_sint sint_u64 word_uint_eq_iff split: if_splits)
qed

text \<open>C34: Overflow-safe comparison of worker set versions.  Whenever the true,
  unbounded version numbers are less than \<open>2 ^ 63\<close> apart,
  \<^verbatim>\<open>WorkerSetIDEarlierThan\<close> of the 64-bit versions does not abort and
  decides the true order, also when the stored version has wrapped around any
  number of times.
\<close>

theorem earlier_than_survives_overflow:
  assumes "\<bar>a - b\<bar> < 2 ^ 63"
  shows "WorkerSetIDEarlierThan (of_int a) (of_int b) = Some (a < b)"
  using assms by (intro earlier_of_int) auto

theorem earlier_than_survives_overflow_witness:
  "WorkerSetIDEarlierThan (of_int (2 ^ 63 - 1)) (of_int (2 ^ 63 + 5)) = Some True"
  using earlier_than_survives_overflow [of "2 ^ 63 - 1" "2 ^ 63 + 5"] by simp

end
