(* ===== verification/Remote_Worker_State.thy ===== *)
theory Remote_Worker_State
  imports Worker_Set_ID
begin

text \<open>
  \<^verbatim>\<open>remote/RemoteWorkerState.h\<close>: the health of a worker, computed by the same
  function in the scheduler and in the worker, and the periods that both sides
  agree on.  The theorems describe the state machine over time.
\<close>

section \<open>Model\<close>

text \<open>The command-line flags that the code for remote workers reads.\<close>

record RemoteFlags =
  FLAGS_healthcheck_period :: int
  FLAGS_healthcheck_grace_period :: int
  FLAGS_worker_check_interval :: int
  FLAGS_heartbeat_grace_period :: int
  FLAGS_lose_unhealthy_worker_after :: int
  FLAGS_CAUTION_worker_suicide_backoff_safety_margin_sec :: int
  FLAGS_CAUTION_worker_suicide_task_kill_wait_ms :: int
  FLAGS_unsure_if_running_check_initial_period :: int
  FLAGS_CAUTION_startup_wait_for_workers :: int
  FLAGS_allow_bump_unhealthy_worker :: bool

datatype WorkerState = NEW | HEALTHY | UNHEALTHY | MUST_DIE

text \<open>The enumerators have the values of their positions.\<close>

fun worker_state_int :: "WorkerState \<Rightarrow> int" where
  "worker_state_int NEW = 0"
| "worker_state_int HEALTHY = 1"
| "worker_state_int UNHEALTHY = 2"
| "worker_state_int MUST_DIE = 3"

text \<open>Times are 64-bit integers, and \<open>INT64_MIN\<close> stands for ``never''.\<close>

definition INT64_MIN :: int where "INT64_MIN = - (2 ^ 63)"

record RemoteWorkerState =
  state :: WorkerState
  timeBecameUnhealthy :: int
  timeLastGoodHealthcheckSent :: int
  timeLastHeartbeatReceived :: int
  hasBeenHealthy :: bool
  notifyIfTasksNotRunningSequenceNum :: int

definition mkRemoteWorkerState :: "int \<Rightarrow> RemoteWorkerState" where
  "mkRemoteWorkerState cur_time =
     \<lparr>state = NEW, timeBecameUnhealthy = cur_time, timeLastGoodHealthcheckSent = INT64_MIN,
      timeLastHeartbeatReceived = INT64_MIN, hasBeenHealthy = False,
      notifyIfTasksNotRunningSequenceNum = 0\<rparr>"

definition computeState ::
  "RemoteWorkerState \<Rightarrow> int \<Rightarrow> int \<Rightarrow> int \<Rightarrow> int \<Rightarrow> bool \<Rightarrow> WorkerState \<times> bool" where
  "computeState s cur_time max_healthcheck_gap max_heartbeat_gap lose_unhealthy_worker_after
     allowed_to_become_healthy =
     (if state s = MUST_DIE then (MUST_DIE, False)
      else
        let (new_state, disallowed) =
              (if state s = NEW then (NEW, False)
               else if cur_time > timeLastGoodHealthcheckSent s + max_healthcheck_gap
                 \<or> cur_time > timeLastHeartbeatReceived s + max_heartbeat_gap then (UNHEALTHY, False)
               else if \<not> allowed_to_become_healthy \<and> \<not> hasBeenHealthy s then (UNHEALTHY, True)
               else (HEALTHY, False))
        in if \<not> disallowed \<and> lose_unhealthy_worker_after > 0 \<and> new_state \<noteq> HEALTHY
              \<and> state s \<noteq> HEALTHY \<and> cur_time > timeBecameUnhealthy s + lose_unhealthy_worker_after
           then (MUST_DIE, disallowed) else (new_state, disallowed))"

definition workerCheckInterval :: "RemoteFlags \<Rightarrow> int" where
  "workerCheckInterval F = max 1 (FLAGS_worker_check_interval F)"

definition maxHealthcheckGap :: "RemoteFlags \<Rightarrow> int" where
  "maxHealthcheckGap F = max 1 (FLAGS_healthcheck_period F)
     + max 1 (FLAGS_healthcheck_grace_period F) + workerCheckInterval F"

definition heartbeatGracePeriod :: "RemoteFlags \<Rightarrow> int" where
  "heartbeatGracePeriod F = max 1 (FLAGS_heartbeat_grace_period F)"

definition loseUnhealthyWorkerAfter :: "RemoteFlags \<Rightarrow> int" where
  "loseUnhealthyWorkerAfter F = max 1 (FLAGS_lose_unhealthy_worker_after F)"

definition workerSuicideBackoffSafetyMarginSec :: "RemoteFlags \<Rightarrow> int" where
  "workerSuicideBackoffSafetyMarginSec F =
     max 1 (FLAGS_CAUTION_worker_suicide_backoff_safety_margin_sec F)"

definition state_workerSuicideTaskKillWaitMs :: "RemoteFlags \<Rightarrow> int" where
  "state_workerSuicideTaskKillWaitMs F = max 1 (FLAGS_CAUTION_worker_suicide_task_kill_wait_ms F)"

text \<open>
  The \<open>id\<close> and the worker set are filled in by the callers; the struct's
  default values stand there until then.
\<close>

definition defaultInstanceID :: BistroInstanceID where
  "defaultInstanceID = \<lparr>startTime = 0, rand = 0\<rparr>"

definition defaultWorkerSetID :: WorkerSetID where
  "defaultWorkerSetID =
     \<lparr>wsid_schedulerID = defaultInstanceID, wsid_version = 0, wsid_hash = emptyWorkerSetHash\<rparr>"

definition getHeartbeatResponse :: "RemoteFlags \<Rightarrow> RemoteWorkerState \<Rightarrow> SchedulerHeartbeatResponse" where
  "getHeartbeatResponse F s =
     \<lparr>response_id = defaultInstanceID,
      resp_maxHealthcheckGap = maxHealthcheckGap F,
      resp_heartbeatGracePeriod = heartbeatGracePeriod F,
      resp_loseUnhealthyWorkerAfter = loseUnhealthyWorkerAfter F,
      resp_workerCheckInterval = workerCheckInterval F,
      resp_workerState = worker_state_int (state s),
      resp_protocolVersion = kProtocolVersion,
      resp_workerSetID = defaultWorkerSetID\<rparr>"


section \<open>The state machine\<close>

lemma gap_pos [simp]:
  "0 < workerCheckInterval F" "0 < maxHealthcheckGap F" "0 < heartbeatGracePeriod F"
  "0 < loseUnhealthyWorkerAfter F" "0 < workerSuicideBackoffSafetyMarginSec F"
  "0 < state_workerSuicideTaskKillWaitMs F"
  by (simp_all add: workerCheckInterval_def maxHealthcheckGap_def heartbeatGracePeriod_def
      loseUnhealthyWorkerAfter_def workerSuicideBackoffSafetyMarginSec_def
      state_workerSuicideTaskKillWaitMs_def)

lemmas computeState_cases = computeState_def Let_def split_beta

lemma computeState_MUST_DIE [simp]: "state s = MUST_DIE \<Longrightarrow> computeState s t g h l p = (MUST_DIE, False)"
  by (simp add: computeState_def)

lemma computeState_NEW_iff: "fst (computeState s t g h l p) = NEW \<longleftrightarrow>
    state s = NEW \<and> \<not> (0 < l \<and> timeBecameUnhealthy s + l < t)"
  by (auto simp: computeState_cases split: if_splits)

lemma computeState_lost:
  "fst (computeState s t g h l p) = MUST_DIE \<Longrightarrow> state s \<noteq> MUST_DIE \<Longrightarrow>
     state s \<noteq> HEALTHY \<and> 0 < l \<and> timeBecameUnhealthy s + l < t"
  by (auto simp: computeState_cases split: if_splits)

lemma computeState_healthy:
  "fst (computeState s t g h l p) = HEALTHY \<Longrightarrow>
     state s \<noteq> NEW \<and> state s \<noteq> MUST_DIE \<and> (p \<or> hasBeenHealthy s)
     \<and> t \<le> timeLastGoodHealthcheckSent s + g \<and> t \<le> timeLastHeartbeatReceived s + h"
  by (auto simp: computeState_cases split: if_splits)

lemma computeState_healthy_iff:
  "fst (computeState s t g h l p) = HEALTHY \<longleftrightarrow>
     state s \<in> {HEALTHY, UNHEALTHY} \<and> (p \<or> hasBeenHealthy s)
     \<and> t \<le> timeLastGoodHealthcheckSent s + g \<and> t \<le> timeLastHeartbeatReceived s + h"
  by (cases "state s") (auto simp: computeState_cases split: if_splits)

text \<open>A worker that misses its checks is lost when it has been unhealthy for long enough.\<close>

lemma computeState_late:
  assumes "t > timeLastGoodHealthcheckSent s + g \<or> t > timeLastHeartbeatReceived s + h"
  shows "state s = HEALTHY \<Longrightarrow> fst (computeState s t g h l p) = UNHEALTHY"
    and "state s = UNHEALTHY \<Longrightarrow> 0 < l \<Longrightarrow> timeBecameUnhealthy s + l < t \<Longrightarrow>
      fst (computeState s t g h l p) = MUST_DIE"
  using assms by (auto simp: computeState_def)

text \<open>
  A later check never makes a worker healthier: this lets the worker predict
  what the scheduler will decide.
\<close>

fun health_rank :: "WorkerState \<Rightarrow> nat" where
  "health_rank HEALTHY = 0"
| "health_rank NEW = 1"
| "health_rank UNHEALTHY = 1"
| "health_rank MUST_DIE = 2"

lemma computeState_antimono:
  assumes "t \<le> t'" "g' \<le> g" "h' \<le> h" "0 < l'" "l' \<le> l" "p' \<longrightarrow> p" "p' \<or> hasBeenHealthy s \<or> \<not> p"
    and "p' \<or> hasBeenHealthy s"
  shows "health_rank (fst (computeState s t g h l p)) \<le> health_rank (fst (computeState s t' g' h' l' p'))"
  using assms by (cases "state s") (auto simp: computeState_cases)

end
