(* ===== verification/Remote_Worker.thy ===== *)
theory Remote_Worker
  imports Remote_Worker_State Task_Status "HOL-Library.Monad_Syntax"
begin

text \<open>
  \<^verbatim>\<open>remote/RemoteWorkerUpdate.h\<close> and \<^verbatim>\<open>remote/RemoteWorker.{h,cpp}\<close>: what
  the scheduler knows of one worker, how heartbeats, periodic checks and task
  statuses change it, and the actions that the scheduler must take as a
  result.
\<close>

section \<open>Actions requested by workers\<close>

type_synonym TaskID = "string \<times> string"
type_synonym TaskMap = "(TaskID \<times> RunningTask) list"
type_synonym WorkerMap = "(string \<times> BistroWorker) list"

record RemoteWorkerUpdate =
  curTime :: int
  workersToHealthcheck :: WorkerMap
  suicideWorkers :: WorkerMap
  newWorkers :: WorkerMap
  lostRunningTasks :: TaskMap
  unsureIfRunningTasksToCheck :: "(string \<times> BistroWorker \<times> RunningTask list) list"
  initialWaitMessage :: string

definition mkRemoteWorkerUpdate :: "int \<Rightarrow> RemoteWorkerUpdate" where
  "mkRemoteWorkerUpdate t =
     \<lparr>curTime = t, workersToHealthcheck = [], suicideWorkers = [], newWorkers = [],
      lostRunningTasks = [], unsureIfRunningTasksToCheck = [], initialWaitMessage = ''unknown''\<rparr>"

text \<open>
  The boolean is false for a duplicate request, which is logged and dropped.
  No caller looks at it.
\<close>

definition healthcheckWorker :: "BistroWorker \<Rightarrow> RemoteWorkerUpdate \<Rightarrow> RemoteWorkerUpdate \<times> bool" where
  "healthcheckWorker w u = (case um_emplace (workersToHealthcheck u) (shard w) w of
     (m, fresh) \<Rightarrow> (u\<lparr>workersToHealthcheck := m\<rparr>, fresh))"

definition update_requestSuicide :: "BistroWorker \<Rightarrow> RemoteWorkerUpdate \<Rightarrow> RemoteWorkerUpdate \<times> bool" where
  "update_requestSuicide w u = (case um_emplace (suicideWorkers u) (shard w) w of
     (m, fresh) \<Rightarrow> (u\<lparr>suicideWorkers := m\<rparr>, fresh))"

definition addNewWorker :: "BistroWorker \<Rightarrow> RemoteWorkerUpdate \<Rightarrow> RemoteWorkerUpdate \<times> bool" where
  "addNewWorker w u = (case um_emplace (newWorkers u) (shard w) w of
     (m, fresh) \<Rightarrow> (u\<lparr>newWorkers := m\<rparr>, fresh))"

definition loseRunningTask :: "TaskID \<Rightarrow> RunningTask \<Rightarrow> RemoteWorkerUpdate \<Rightarrow> RemoteWorkerUpdate \<times> bool" where
  "loseRunningTask task_id rt u = (case um_emplace (lostRunningTasks u) task_id rt of
     (m, fresh) \<Rightarrow> (u\<lparr>lostRunningTasks := m\<rparr>, fresh))"

definition checkUnsureIfRunningTasks :: "BistroWorker \<Rightarrow> TaskMap \<Rightarrow> RemoteWorkerUpdate \<Rightarrow> RemoteWorkerUpdate" where
  "checkUnsureIfRunningTasks w tasks u =
     u\<lparr>unsureIfRunningTasksToCheck :=
        fst (um_emplace (unsureIfRunningTasksToCheck u) (shard w) (w, map snd tasks))\<rparr>"


section \<open>Remote workers\<close>

definition kHealthcheckTaskJob :: string where "kHealthcheckTaskJob = ''__BISTRO_HEALTH_CHECK__''"

definition kMaxBackoffForUnsureIfRunningCheck :: nat where "kMaxBackoffForUnsureIfRunningCheck = 8"

record RemoteWorker =
  worker :: BistroWorker
  wstate :: RemoteWorkerState
  initialWorkerSetID :: WorkerSetID
  workerSetID :: "WorkerSetID option"
  firstAssociatedWorkerSetID :: "WorkerSetID option"
  indirectWorkerSetID :: "WorkerSetID option"
  timeLastHealthcheckSent :: int
  rw_runningTasks :: TaskMap
  unsureIfRunningTasks :: TaskMap
  timeOfLastUnsureIfRunningCheck :: int
  repeatsOfUnsureIfRunningCheck :: nat
  rw_schedulerID :: BistroInstanceID

text \<open>
  The callbacks with which the owner of a worker follows its life; the owner's
  state has type \<open>'o\<close>.  The last one may change the worker it is called for.
\<close>

record 'o WorkerCobs =
  newWorkerCob :: "RemoteWorker \<Rightarrow> 'o \<Rightarrow> 'o option"
  deadWorkerCob :: "RemoteWorker \<Rightarrow> 'o \<Rightarrow> 'o option"
  workerSetIDChangeCob :: "RemoteWorker \<Rightarrow> WorkerSetID \<Rightarrow> 'o \<Rightarrow> (RemoteWorker \<times> 'o) option"

text \<open>The constructor: the initializers of the members, then the call of the first callback.\<close>

definition blankRemoteWorker :: "int \<Rightarrow> BistroWorker \<Rightarrow> WorkerSetID \<Rightarrow> BistroInstanceID \<Rightarrow> RemoteWorker" where
  "blankRemoteWorker cur_time w_new worker_set_id scheduler_id =
     \<lparr>worker = w_new, wstate = mkRemoteWorkerState cur_time,
      initialWorkerSetID = worker_set_id, workerSetID = None,
      firstAssociatedWorkerSetID = None, indirectWorkerSetID = None,
      timeLastHealthcheckSent = INT64_MIN, rw_runningTasks = [], unsureIfRunningTasks = [],
      timeOfLastUnsureIfRunningCheck = INT64_MIN, repeatsOfUnsureIfRunningCheck = 0,
      rw_schedulerID = scheduler_id\<rparr>"

definition mkRemoteWorker ::
  "'o WorkerCobs \<Rightarrow> int \<Rightarrow> BistroWorker \<Rightarrow> WorkerSetID \<Rightarrow> BistroInstanceID \<Rightarrow> 'o \<Rightarrow> (RemoteWorker \<times> 'o) option" where
  "mkRemoteWorker C cur_time w_new worker_set_id scheduler_id ow =
     (let w = blankRemoteWorker cur_time w_new worker_set_id scheduler_id
      in do { ow' \<leftarrow> newWorkerCob C w ow; Some (w, ow') })"

definition getState :: "RemoteWorker \<Rightarrow> WorkerState" where
  "getState w = state (wstate w)"

definition isHealthy :: "RemoteWorker \<Rightarrow> bool" where
  "isHealthy w \<longleftrightarrow> getState w = HEALTHY"

definition setState :: "WorkerState \<Rightarrow> RemoteWorker \<Rightarrow> RemoteWorker" where
  "setState new_state w =
     w\<lparr>wstate := (wstate w)\<lparr>state := new_state,
         hasBeenHealthy := hasBeenHealthy (wstate w) \<or> new_state = HEALTHY\<rparr>\<rparr>"

definition rw_computeState :: "RemoteFlags \<Rightarrow> RemoteWorker \<Rightarrow> int \<Rightarrow> bool \<Rightarrow> WorkerState \<times> bool" where
  "rw_computeState F w cur_time consensus_permits_becoming_healthy =
     computeState (wstate w) cur_time (maxHealthcheckGap F)
       (heartbeatPeriodSec (worker w) + heartbeatGracePeriod F) (loseUnhealthyWorkerAfter F)
       consensus_permits_becoming_healthy"

definition calledNotifyIfTasksNotRunning :: "RemoteWorker \<Rightarrow> int \<times> RemoteWorker" where
  "calledNotifyIfTasksNotRunning w =
     (let n = notifyIfTasksNotRunningSequenceNum (wstate w) + 1
      in (n, w\<lparr>wstate := (wstate w)\<lparr>notifyIfTasksNotRunningSequenceNum := n\<rparr>\<rparr>))"

subsection \<open>The protocol version\<close>

definition checkWorkerSchedulerProtocolVersion :: "int \<Rightarrow> int \<Rightarrow> bool" where
  "checkWorkerSchedulerProtocolVersion w s \<longleftrightarrow> w = s"

definition enforceWorkerSchedulerProtocolVersion :: "int \<Rightarrow> int \<Rightarrow> string + unit" where
  "enforceWorkerSchedulerProtocolVersion w s =
     (if \<not> checkWorkerSchedulerProtocolVersion w s
      then Inl ''Worker-scheduler protocol version mismatch'' else Inr ())"

subsection \<open>Periodic checks\<close>

definition loseRunningTasks :: "RemoteWorker \<Rightarrow> RemoteWorkerUpdate \<Rightarrow> RemoteWorker \<times> RemoteWorkerUpdate" where
  "loseRunningTasks w u =
     (w\<lparr>rw_runningTasks := [], unsureIfRunningTasks := []\<rparr>,
      fold (\<lambda>(task_id, rt) u. fst (loseRunningTask task_id rt u)) (rw_runningTasks w) u)"

text \<open>The end of \<^verbatim>\<open>updateState\<close>: a new healthcheck, if it is due, \<dots>\<close>

definition send_healthcheck_if_due ::
  "RemoteFlags \<Rightarrow> RemoteWorker \<Rightarrow> RemoteWorkerUpdate \<Rightarrow> RemoteWorker \<times> RemoteWorkerUpdate" where
  "send_healthcheck_if_due F w u =
     (if curTime u \<ge> timeLastHealthcheckSent w + max 1 (FLAGS_healthcheck_period F)
      then (w\<lparr>timeLastHealthcheckSent := curTime u\<rparr>, fst (healthcheckWorker (worker w) u))
      else (w, u))"

text \<open>\dots and a query of the tasks that may not be running, with exponential backoff.\<close>

definition check_unsure_if_due ::
  "RemoteFlags \<Rightarrow> RemoteWorker \<Rightarrow> RemoteWorkerUpdate \<Rightarrow> RemoteWorker \<times> RemoteWorkerUpdate" where
  "check_unsure_if_due F w u =
     (if unsureIfRunningTasks w = [] then (w\<lparr>repeatsOfUnsureIfRunningCheck := 0\<rparr>, u)
      else if curTime u \<ge> timeOfLastUnsureIfRunningCheck w
          + i32 (max 1 (FLAGS_unsure_if_running_check_initial_period F)
                 * 2 ^ repeatsOfUnsureIfRunningCheck w)
      then (w\<lparr>timeOfLastUnsureIfRunningCheck := curTime u,
              repeatsOfUnsureIfRunningCheck :=
                (if repeatsOfUnsureIfRunningCheck w < kMaxBackoffForUnsureIfRunningCheck
                 then repeatsOfUnsureIfRunningCheck w + 1 else repeatsOfUnsureIfRunningCheck w)\<rparr>,
            checkUnsureIfRunningTasks (worker w) (unsureIfRunningTasks w) u)
      else (w, u))"

definition rw_updateState ::
  "RemoteFlags \<Rightarrow> 'o WorkerCobs \<Rightarrow> bool \<Rightarrow> RemoteWorker \<Rightarrow> RemoteWorkerUpdate \<Rightarrow> 'o
     \<Rightarrow> (RemoteWorker \<times> RemoteWorkerUpdate \<times> 'o) option" where
  "rw_updateState F C consensus_permits_becoming_healthy w u ow =
     (if getState w = MUST_DIE then Some (w, u, ow)
      else
        let new_state = fst (rw_computeState F w (curTime u) consensus_permits_becoming_healthy);
            u1 = (if new_state = NEW then fst (addNewWorker (worker w) u) else u);
            w1 = (if new_state \<noteq> HEALTHY \<and> getState w = HEALTHY
                  then w\<lparr>wstate := (wstate w)\<lparr>timeBecameUnhealthy := curTime u1\<rparr>\<rparr> else w)
        in if new_state = MUST_DIE then
             let u2 = fst (update_requestSuicide (worker w1) u1)
             in do {
               ow' \<leftarrow> deadWorkerCob C w1 ow;
               let (w2, u3) = loseRunningTasks w1 u2;
               Some (setState MUST_DIE w2, u3, ow')
             }
           else
             let w2 = setState new_state w1;
                 (w3, u3) = send_healthcheck_if_due F w2 u1;
                 (w4, u4) = check_unsure_if_due F w3 u3
             in Some (w4, u4, ow))"

subsection \<open>Heartbeats\<close>

definition updateNewWorker ::
  "RemoteFlags \<Rightarrow> 'o WorkerCobs \<Rightarrow> BistroWorker \<Rightarrow> WorkerSetID \<Rightarrow> RemoteWorker \<Rightarrow> RemoteWorkerUpdate \<Rightarrow> 'o
     \<Rightarrow> (RemoteWorker \<times> RemoteWorkerUpdate \<times> 'o) option" where
  "updateNewWorker F C w_new worker_set_id w u ow =
     do {
       ow1 \<leftarrow> (if getState w \<noteq> MUST_DIE then deadWorkerCob C w ow else Some ow);
       let (w1, u1) = loseRunningTasks w u;
       (w2, ow2) \<leftarrow> mkRemoteWorker C (curTime u1) w_new worker_set_id (rw_schedulerID w1) ow1;
       let w3 = w2\<lparr>wstate := (wstate w2)\<lparr>timeLastHeartbeatReceived := curTime u1\<rparr>\<rparr>;
       rw_updateState F C False w3 u1 ow2
     }"

text \<open>The worker set that a heartbeat echoes, in the branches of \<^verbatim>\<open>updateCurrentWorker\<close>.\<close>

definition update_worker_set ::
  "'o WorkerCobs \<Rightarrow> WorkerSetID \<Rightarrow> RemoteWorker \<Rightarrow> 'o \<Rightarrow> (RemoteWorker \<times> 'o) option" where
  "update_worker_set C worker_set_id w ow =
     (if wsid_schedulerID worker_set_id = rw_schedulerID w then
        do {
          ignore \<leftarrow> (if wsid_schedulerID worker_set_id = wsid_schedulerID (initialWorkerSetID w)
             then map_option Not (WorkerSetIDEarlierThan (wsid_version (initialWorkerSetID w)) (wsid_version worker_set_id))
             else Some False);
          if ignore then Some (w, ow)
          else do {
            later \<leftarrow> (case workerSetID w of None \<Rightarrow> Some True
               | Some cur \<Rightarrow> WorkerSetIDEarlierThan (wsid_version cur) (wsid_version worker_set_id));
            if later then do {
              (w1, ow1) \<leftarrow> workerSetIDChangeCob C w worker_set_id ow;
              w2 \<leftarrow> (if firstAssociatedWorkerSetID w1 = None then
                      if workerSetID w1 = None \<and> initialWorkerSetID w1 \<noteq> worker_set_id
                      then Some (w1\<lparr>firstAssociatedWorkerSetID := Some worker_set_id\<rparr>) else None
                    else Some w1);
              Some (w2\<lparr>workerSetID := Some worker_set_id\<rparr>, ow1)
            }
            else if map_option wsid_version (workerSetID w) = Some (wsid_version worker_set_id) then
              if workerSetID w = Some worker_set_id then Some (w, ow) else None
            else Some (w, ow)
          }
        }
      else Some (w, ow))"

definition updateCurrentWorker ::
  "RemoteFlags \<Rightarrow> 'o WorkerCobs \<Rightarrow> BistroWorker \<Rightarrow> WorkerSetID \<Rightarrow> bool \<Rightarrow> RemoteWorker \<Rightarrow> RemoteWorkerUpdate \<Rightarrow> 'o
     \<Rightarrow> (RemoteWorker \<times> RemoteWorkerUpdate \<times> 'o) option" where
  "updateCurrentWorker F C w_new worker_set_id consensus_permits_becoming_healthy w u ow =
     do {
       (w1, ow1) \<leftarrow> update_worker_set C worker_set_id (w\<lparr>worker := w_new\<rparr>) ow;
       let w2 = w1\<lparr>wstate := (wstate w1)\<lparr>timeLastHeartbeatReceived := curTime u\<rparr>\<rparr>;
       rw_updateState F C consensus_permits_becoming_healthy w2 u ow1
     }"

text \<open>The response is \<open>None\<close> when the heartbeat is rejected.\<close>

definition rw_processHeartbeat ::
  "RemoteFlags \<Rightarrow> 'o WorkerCobs \<Rightarrow> BistroWorker \<Rightarrow> WorkerSetID \<Rightarrow> bool \<Rightarrow> RemoteWorker \<Rightarrow> RemoteWorkerUpdate \<Rightarrow> 'o
     \<Rightarrow> (SchedulerHeartbeatResponse option \<times> RemoteWorker \<times> RemoteWorkerUpdate \<times> 'o) option" where
  "rw_processHeartbeat F C w_new worker_set_id consensus_permits_becoming_healthy w u ow =
     (let w_cur = worker w;
          respond = map_option (\<lambda>(w', u', ow'). (Some (getHeartbeatResponse F (wstate w')), w', u', ow'))
      in if \<not> checkWorkerSchedulerProtocolVersion (protocolVersion w_new) kProtocolVersion then None
         else if machineLock w_cur \<noteq> machineLock w_new then
           let cur_state = fst (rw_computeState F w (curTime u) consensus_permits_becoming_healthy)
           in if cur_state = MUST_DIE \<or> (FLAGS_allow_bump_unhealthy_worker F \<and> cur_state \<noteq> HEALTHY) then
                respond (updateNewWorker F C w_new worker_set_id w (fst (update_requestSuicide w_cur u)) ow)
              else Some (None, w, fst (update_requestSuicide w_new u), ow)
         else if worker_id w_cur \<noteq> worker_id w_new then
           if sint (startTime (worker_id w_cur)) > sint (startTime (worker_id w_new))
           then Some (None, w, u, ow)
           else respond (updateNewWorker F C w_new worker_set_id w u ow)
         else
           let u1 = (if getState w = MUST_DIE then fst (update_requestSuicide w_cur u) else u)
           in respond (updateCurrentWorker F C w_new worker_set_id consensus_permits_becoming_healthy w u1 ow))"

subsection \<open>Task statuses\<close>

definition rt_id :: "RunningTask \<Rightarrow> TaskID" where
  "rt_id rt = (rt_job rt, rt_node rt)"

definition recordRunningTaskStatus :: "RunningTask \<Rightarrow> TaskStatus \<Rightarrow> RemoteWorker \<Rightarrow> RemoteWorker option" where
  "recordRunningTaskStatus rt status w =
     (if \<not> isRunning status then None
      else if map_of (unsureIfRunningTasks w) (rt_id rt) \<noteq> None then None
      else case um_emplace (rw_runningTasks w) (rt_id rt) rt of
        (m, fresh) \<Rightarrow> if fresh then Some (w\<lparr>rw_runningTasks := m\<rparr>) else None)"

definition recordNonRunningTaskStatusImpl ::
  "RunningTask \<Rightarrow> TaskStatus \<Rightarrow> RemoteWorker \<Rightarrow> bool \<times> RemoteWorker" where
  "recordNonRunningTaskStatusImpl rt status w =
     (case map_of (rw_runningTasks w) (rt_id rt) of
        Some cur \<Rightarrow>
          if invocationID cur \<noteq> invocationID rt then (False, w)
          else (True, w\<lparr>rw_runningTasks := AList.delete (rt_id rt) (rw_runningTasks w),
                        unsureIfRunningTasks := AList.delete (rt_id rt) (unsureIfRunningTasks w)\<rparr>)
      | None \<Rightarrow>
          if isOverwriteable status then (False, w)
          else (True, w\<lparr>unsureIfRunningTasks := AList.delete (rt_id rt) (unsureIfRunningTasks w)\<rparr>))"

definition recordFailedTask :: "RunningTask \<Rightarrow> TaskStatus \<Rightarrow> RemoteWorker \<Rightarrow> RemoteWorker option" where
  "recordFailedTask rt status w =
     (if isRunning status \<or> isDone status then None
      else case recordNonRunningTaskStatusImpl rt status w of
        (recorded, w') \<Rightarrow> if recorded then Some w' else None)"

text \<open>The outer option is the \<^verbatim>\<open>CHECK\<close>, the left summand an exception for the worker to retry.\<close>

definition recordNonRunningTaskStatus ::
  "RunningTask \<Rightarrow> TaskStatus \<Rightarrow> BistroInstanceID \<Rightarrow> RemoteWorker \<Rightarrow> (string + bool \<times> RemoteWorker) option" where
  "recordNonRunningTaskStatus rt status worker_id' w =
     (if isRunning status then None
      else if worker_id' \<noteq> worker_id (worker w) then Some (Inl ''Got status from an unexpected worker'')
      else if rt_job rt = kHealthcheckTaskJob then
        Some (Inr (False,
          if isDone status
          then w\<lparr>wstate := (wstate w)\<lparr>timeLastGoodHealthcheckSent :=
                   max (sint (startTime (invocationID rt))) (timeLastGoodHealthcheckSent (wstate w))\<rparr>\<rparr>
          else w))
      else if getState w = NEW then Some (Inl ''Rejecting updateStatus from a worker in NEW state'')
      else Some (Inr (recordNonRunningTaskStatusImpl rt status w)))"

definition rw_initializeRunningTasks :: "RunningTask list \<Rightarrow> RemoteWorker \<Rightarrow> RemoteWorker option" where
  "rw_initializeRunningTasks running_tasks w =
     (if getState w \<noteq> NEW \<or> rw_runningTasks w \<noteq> [] \<or> unsureIfRunningTasks w \<noteq> [] then None
      else do {
        w' \<leftarrow> foldO (\<lambda>rt w. if workerShard rt \<noteq> shard (worker w) then None
             else case um_emplace (rw_runningTasks w) (rt_id rt) rt of
               (m, fresh) \<Rightarrow> if fresh then Some (w\<lparr>rw_runningTasks := m\<rparr>) else None) running_tasks w;
        Some (setState UNHEALTHY w')
      })"

definition addUnsureIfRunningTask :: "RunningTask \<Rightarrow> RemoteWorker \<Rightarrow> RemoteWorker option" where
  "addUnsureIfRunningTask rt w =
     (case um_emplace (unsureIfRunningTasks w) (rt_id rt) rt of
        (m, fresh) \<Rightarrow> if fresh then Some (w\<lparr>unsureIfRunningTasks := m\<rparr>) else None)"

definition eraseUnsureIfRunningTasks :: "RunningTask list \<Rightarrow> RemoteWorker \<Rightarrow> RemoteWorker option" where
  "eraseUnsureIfRunningTasks tasks =
     foldO (\<lambda>rt w. if workerShard rt \<noteq> shard (worker w) then None
        else case map_of (unsureIfRunningTasks w) (rt_id rt) of
            None \<Rightarrow> Some w
          | Some cur \<Rightarrow>
              if invocationID cur \<noteq> invocationID rt then Some w
              else Some (w\<lparr>unsureIfRunningTasks := AList.delete (rt_id rt) (unsureIfRunningTasks w)\<rparr>)) tasks"


section \<open>Operations in isolation\<close>

lemmas update_ops = healthcheckWorker_def update_requestSuicide_def addNewWorker_def
  loseRunningTask_def checkUnsureIfRunningTasks_def

lemma dom_um_emplace: "dom (map_of (fst (um_emplace m k v))) = insert k (dom (map_of m))"
  by (auto simp: um_emplace_def split: option.splits)

lemma update_ops_frame [simp]:
  "lostRunningTasks (fst (healthcheckWorker b u)) = lostRunningTasks u"
  "lostRunningTasks (fst (update_requestSuicide b u)) = lostRunningTasks u"
  "lostRunningTasks (fst (addNewWorker b u)) = lostRunningTasks u"
  "lostRunningTasks (checkUnsureIfRunningTasks b ts u) = lostRunningTasks u"
  "curTime (fst (healthcheckWorker b u)) = curTime u"
  "curTime (fst (update_requestSuicide b u)) = curTime u"
  "curTime (fst (addNewWorker b u)) = curTime u"
  "curTime (checkUnsureIfRunningTasks b ts u) = curTime u"
  "suicideWorkers (fst (healthcheckWorker b u)) = suicideWorkers u"
  "suicideWorkers (fst (addNewWorker b u)) = suicideWorkers u"
  "suicideWorkers (checkUnsureIfRunningTasks b ts u) = suicideWorkers u"
  "newWorkers (fst (healthcheckWorker b u)) = newWorkers u"
  "newWorkers (fst (update_requestSuicide b u)) = newWorkers u"
  "newWorkers (checkUnsureIfRunningTasks b ts u) = newWorkers u"
  by (simp_all add: update_ops split_beta)

lemma dom_suicide: "dom (map_of (suicideWorkers (fst (update_requestSuicide b u)))) =
    insert (shard b) (dom (map_of (suicideWorkers u)))"
  by (simp add: update_requestSuicide_def split_beta dom_um_emplace)

lemma dom_new: "dom (map_of (newWorkers (fst (addNewWorker b u)))) =
    insert (shard b) (dom (map_of (newWorkers u)))"
  by (simp add: addNewWorker_def split_beta dom_um_emplace)

abbreviation lose_all :: "TaskMap \<Rightarrow> RemoteWorkerUpdate \<Rightarrow> RemoteWorkerUpdate" where
  "lose_all \<equiv> fold (\<lambda>(task_id, rt) u. fst (loseRunningTask task_id rt u))"

lemma lose_all_frame [simp]:
  "curTime (lose_all ts u) = curTime u"
  "suicideWorkers (lose_all ts u) = suicideWorkers u"
  "newWorkers (lose_all ts u) = newWorkers u"
  "workersToHealthcheck (lose_all ts u) = workersToHealthcheck u"
  by (induction ts arbitrary: u) (auto simp: loseRunningTask_def split_beta)

lemma dom_lose_all: "dom (map_of (lostRunningTasks (lose_all ts u))) =
    fst ` set ts \<union> dom (map_of (lostRunningTasks u))"
  by (induction ts arbitrary: u) (auto simp: loseRunningTask_def split_beta dom_um_emplace)

lemma send_healthcheck_frame [simp]:
  "rw_runningTasks (fst (send_healthcheck_if_due F w u)) = rw_runningTasks w"
  "unsureIfRunningTasks (fst (send_healthcheck_if_due F w u)) = unsureIfRunningTasks w"
  "wstate (fst (send_healthcheck_if_due F w u)) = wstate w"
  "worker (fst (send_healthcheck_if_due F w u)) = worker w"
  "initialWorkerSetID (fst (send_healthcheck_if_due F w u)) = initialWorkerSetID w"
  "indirectWorkerSetID (fst (send_healthcheck_if_due F w u)) = indirectWorkerSetID w"
  "repeatsOfUnsureIfRunningCheck (fst (send_healthcheck_if_due F w u)) = repeatsOfUnsureIfRunningCheck w"
  "lostRunningTasks (snd (send_healthcheck_if_due F w u)) = lostRunningTasks u"
  "suicideWorkers (snd (send_healthcheck_if_due F w u)) = suicideWorkers u"
  "newWorkers (snd (send_healthcheck_if_due F w u)) = newWorkers u"
  "curTime (snd (send_healthcheck_if_due F w u)) = curTime u"
  "getState (fst (send_healthcheck_if_due F w u)) = getState w"
  by (simp_all add: send_healthcheck_if_due_def getState_def)

lemma check_unsure_frame [simp]:
  "rw_runningTasks (fst (check_unsure_if_due F w u)) = rw_runningTasks w"
  "unsureIfRunningTasks (fst (check_unsure_if_due F w u)) = unsureIfRunningTasks w"
  "wstate (fst (check_unsure_if_due F w u)) = wstate w"
  "worker (fst (check_unsure_if_due F w u)) = worker w"
  "initialWorkerSetID (fst (check_unsure_if_due F w u)) = initialWorkerSetID w"
  "indirectWorkerSetID (fst (check_unsure_if_due F w u)) = indirectWorkerSetID w"
  "lostRunningTasks (snd (check_unsure_if_due F w u)) = lostRunningTasks u"
  "suicideWorkers (snd (check_unsure_if_due F w u)) = suicideWorkers u"
  "newWorkers (snd (check_unsure_if_due F w u)) = newWorkers u"
  "curTime (snd (check_unsure_if_due F w u)) = curTime u"
  "getState (fst (check_unsure_if_due F w u)) = getState w"
  by (simp_all add: check_unsure_if_due_def getState_def)

lemma setState_frame [simp]:
  "rw_runningTasks (setState st w) = rw_runningTasks w"
  "unsureIfRunningTasks (setState st w) = unsureIfRunningTasks w"
  "worker (setState st w) = worker w"
  "initialWorkerSetID (setState st w) = initialWorkerSetID w"
  "indirectWorkerSetID (setState st w) = indirectWorkerSetID w"
  "repeatsOfUnsureIfRunningCheck (setState st w) = repeatsOfUnsureIfRunningCheck w"
  "getState (setState st w) = st"
  "timeBecameUnhealthy (wstate (setState st w)) = timeBecameUnhealthy (wstate w)"
  "timeLastGoodHealthcheckSent (wstate (setState st w)) = timeLastGoodHealthcheckSent (wstate w)"
  "timeLastHeartbeatReceived (wstate (setState st w)) = timeLastHeartbeatReceived (wstate w)"
  "hasBeenHealthy (wstate (setState st w)) \<longleftrightarrow> hasBeenHealthy (wstate w) \<or> st = HEALTHY"
  by (simp_all add: setState_def getState_def)

text \<open>What a periodic check does, by the state that it computes.\<close>

lemma rw_updateState_dead: "getState w = MUST_DIE \<Longrightarrow> rw_updateState F C p w u ow = Some (w, u, ow)"
  by (simp add: rw_updateState_def)

lemma rw_updateState_lost:
  assumes "rw_updateState F C p w u ow = Some (w', u', ow')" "getState w \<noteq> MUST_DIE"
    and "fst (rw_computeState F w (curTime u) p) = MUST_DIE"
  shows "deadWorkerCob C w ow = Some ow'" "getState w' = MUST_DIE" "rw_runningTasks w' = []"
    "unsureIfRunningTasks w' = []" "worker w' = worker w" "initialWorkerSetID w' = initialWorkerSetID w"
    "u' = lose_all (rw_runningTasks w) (fst (update_requestSuicide (worker w) u))"
    "hasBeenHealthy (wstate w') = hasBeenHealthy (wstate w)"
    "repeatsOfUnsureIfRunningCheck w' = repeatsOfUnsureIfRunningCheck w"
proof -
  have "getState w \<noteq> HEALTHY"
    using computeState_lost assms(2,3) by (auto simp: rw_computeState_def getState_def)
  then show "deadWorkerCob C w ow = Some ow'" "getState w' = MUST_DIE" "rw_runningTasks w' = []"
    "unsureIfRunningTasks w' = []" "worker w' = worker w" "initialWorkerSetID w' = initialWorkerSetID w"
    "u' = lose_all (rw_runningTasks w) (fst (update_requestSuicide (worker w) u))"
    "hasBeenHealthy (wstate w') = hasBeenHealthy (wstate w)"
    "repeatsOfUnsureIfRunningCheck w' = repeatsOfUnsureIfRunningCheck w"
    using assms by (auto simp: rw_updateState_def Let_def loseRunningTasks_def split: bind_splits)
qed

lemma rw_updateState_alive:
  assumes "rw_updateState F C p w u ow = Some (w', u', ow')" "getState w \<noteq> MUST_DIE"
    and "fst (rw_computeState F w (curTime u) p) \<noteq> MUST_DIE"
  shows "ow' = ow" "getState w' = fst (rw_computeState F w (curTime u) p)"
    "rw_runningTasks w' = rw_runningTasks w" "unsureIfRunningTasks w' = unsureIfRunningTasks w"
    "worker w' = worker w" "initialWorkerSetID w' = initialWorkerSetID w"
    "indirectWorkerSetID w' = indirectWorkerSetID w"
    "lostRunningTasks u' = lostRunningTasks u" "suicideWorkers u' = suicideWorkers u"
    "hasBeenHealthy (wstate w') \<longleftrightarrow> hasBeenHealthy (wstate w) \<or> getState w' = HEALTHY"
    "getState w' = NEW \<longrightarrow> shard (worker w) \<in> dom (map_of (newWorkers u'))"
    "dom (map_of (newWorkers u)) \<subseteq> dom (map_of (newWorkers u'))"
    "timeBecameUnhealthy (wstate w') = (if getState w' \<noteq> HEALTHY \<and> getState w = HEALTHY then curTime u
       else timeBecameUnhealthy (wstate w))"
    "timeLastGoodHealthcheckSent (wstate w') = timeLastGoodHealthcheckSent (wstate w)"
    "timeLastHeartbeatReceived (wstate w') = timeLastHeartbeatReceived (wstate w)" "curTime u' = curTime u"
proof -
  define st where "st = fst (rw_computeState F w (curTime u) p)"
  define u1 where "u1 = (if st = NEW then fst (addNewWorker (worker w) u) else u)"
  define w1 where "w1 = (if st \<noteq> HEALTHY \<and> getState w = HEALTHY
    then w\<lparr>wstate := (wstate w)\<lparr>timeBecameUnhealthy := curTime u1\<rparr>\<rparr> else w)"
  define r where "r = send_healthcheck_if_due F (setState st w1) u1"
  have "rw_updateState F C p w u ow =
      Some (fst (check_unsure_if_due F (fst r) (snd r)), snd (check_unsure_if_due F (fst r) (snd r)), ow)"
    using assms(2,3) unfolding r_def w1_def u1_def st_def
    by (simp add: rw_updateState_def Let_def split_beta split del: if_split)
  with assms(1) have w': "w' = fst (check_unsure_if_due F (fst r) (snd r))"
    and u': "u' = snd (check_unsure_if_due F (fst r) (snd r))" and "ow' = ow"
    by auto
  have u1: "curTime u1 = curTime u" "lostRunningTasks u1 = lostRunningTasks u"
    "suicideWorkers u1 = suicideWorkers u" "st = NEW \<longrightarrow> shard (worker w) \<in> dom (map_of (newWorkers u1))"
    "dom (map_of (newWorkers u)) \<subseteq> dom (map_of (newWorkers u1))"
    by (simp_all add: u1_def dom_new subset_insertI)
  have w1: "rw_runningTasks w1 = rw_runningTasks w" "unsureIfRunningTasks w1 = unsureIfRunningTasks w"
    "worker w1 = worker w" "initialWorkerSetID w1 = initialWorkerSetID w"
    "indirectWorkerSetID w1 = indirectWorkerSetID w" "hasBeenHealthy (wstate w1) = hasBeenHealthy (wstate w)"
    "timeLastGoodHealthcheckSent (wstate w1) = timeLastGoodHealthcheckSent (wstate w)"
    "timeLastHeartbeatReceived (wstate w1) = timeLastHeartbeatReceived (wstate w)"
    "timeBecameUnhealthy (wstate w1) =
       (if st \<noteq> HEALTHY \<and> getState w = HEALTHY then curTime u else timeBecameUnhealthy (wstate w))"
    by (simp_all add: w1_def u1(1))
  have "getState w' = st" by (simp add: w' r_def)
  with \<open>ow' = ow\<close> show "ow' = ow" "getState w' = fst (rw_computeState F w (curTime u) p)"
    "rw_runningTasks w' = rw_runningTasks w" "unsureIfRunningTasks w' = unsureIfRunningTasks w"
    "worker w' = worker w" "initialWorkerSetID w' = initialWorkerSetID w"
    "indirectWorkerSetID w' = indirectWorkerSetID w"
    "lostRunningTasks u' = lostRunningTasks u" "suicideWorkers u' = suicideWorkers u"
    "hasBeenHealthy (wstate w') \<longleftrightarrow> hasBeenHealthy (wstate w) \<or> getState w' = HEALTHY"
    "getState w' = NEW \<longrightarrow> shard (worker w) \<in> dom (map_of (newWorkers u'))"
    "dom (map_of (newWorkers u)) \<subseteq> dom (map_of (newWorkers u'))"
    "timeBecameUnhealthy (wstate w') = (if getState w' \<noteq> HEALTHY \<and> getState w = HEALTHY then curTime u
       else timeBecameUnhealthy (wstate w))"
    "timeLastGoodHealthcheckSent (wstate w') = timeLastGoodHealthcheckSent (wstate w)"
    "timeLastHeartbeatReceived (wstate w') = timeLastHeartbeatReceived (wstate w)" "curTime u' = curTime u"
    using u1 w1 by (simp_all add: w' u' r_def st_def)
qed

lemma rw_updateState_new:
  assumes upd: "rw_updateState F C p w u ow = Some (w', u', ow')"
  shows "dom (map_of (newWorkers u)) \<subseteq> dom (map_of (newWorkers u'))" "curTime u' = curTime u"
    "getState w' = NEW \<longrightarrow> newWorkers u' \<noteq> []"
proof -
  have "dom (map_of (newWorkers u)) \<subseteq> dom (map_of (newWorkers u')) \<and> curTime u' = curTime u
    \<and> (getState w' = NEW \<longrightarrow> newWorkers u' \<noteq> [])"
  proof (cases "getState w = MUST_DIE")
    case True
    with upd show ?thesis by (auto simp: rw_updateState_dead)
  next
    case alive: False
    show ?thesis
    proof (cases "fst (rw_computeState F w (curTime u) p) = MUST_DIE")
      case True
      from rw_updateState_lost(2,7) [OF upd alive this] show ?thesis by simp
    next
      case False
      from rw_updateState_alive(11,12,16) [OF upd alive this] show ?thesis by auto
    qed
  qed
  then show "dom (map_of (newWorkers u)) \<subseteq> dom (map_of (newWorkers u'))" "curTime u' = curTime u"
    "getState w' = NEW \<longrightarrow> newWorkers u' \<noteq> []" by simp_all
qed

lemma repeats_bounded:
  assumes "rw_updateState F C p w u ow = Some (w', u', ow')"
    and "repeatsOfUnsureIfRunningCheck w \<le> kMaxBackoffForUnsureIfRunningCheck"
  shows "repeatsOfUnsureIfRunningCheck w' \<le> kMaxBackoffForUnsureIfRunningCheck"
  using assms
  by (auto simp: rw_updateState_def Let_def split_beta loseRunningTasks_def check_unsure_if_due_def
      setState_def split: if_splits bind_splits)


lemma update_worker_set_cases:
  assumes "update_worker_set C s w ow = Some (w', ow')"
  shows "w' = w \<and> ow' = ow \<or> (\<exists>w1 f. workerSetIDChangeCob C w s ow = Some (w1, ow')
    \<and> w' = w1\<lparr>firstAssociatedWorkerSetID := f, workerSetID := Some s\<rparr>)"
proof -
  have eq: "w1\<lparr>workerSetID := Some s\<rparr> =
      w1\<lparr>firstAssociatedWorkerSetID := firstAssociatedWorkerSetID w1, workerSetID := Some s\<rparr>" for w1 :: RemoteWorker
    by simp
  have "w' = w \<and> ow' = ow \<or> (\<exists>w1. workerSetIDChangeCob C w s ow = Some (w1, ow')
    \<and> (w' = w1\<lparr>workerSetID := Some s\<rparr>
        \<or> w' = w1\<lparr>firstAssociatedWorkerSetID := Some s, workerSetID := Some s\<rparr>))"
    using assms unfolding update_worker_set_def
    by (auto simp: bind_eq_Some_conv split: if_split_asm)
  then show ?thesis using eq by metis
qed

lemma blankRemoteWorker_sel [simp]:
  "worker (blankRemoteWorker t b s i) = b" "initialWorkerSetID (blankRemoteWorker t b s i) = s"
  "state (wstate (blankRemoteWorker t b s i)) = NEW" "rw_runningTasks (blankRemoteWorker t b s i) = []"
  "unsureIfRunningTasks (blankRemoteWorker t b s i) = []" "workerSetID (blankRemoteWorker t b s i) = None"
  "indirectWorkerSetID (blankRemoteWorker t b s i) = None"
  "firstAssociatedWorkerSetID (blankRemoteWorker t b s i) = None"
  "repeatsOfUnsureIfRunningCheck (blankRemoteWorker t b s i) = 0"
  "timeBecameUnhealthy (wstate (blankRemoteWorker t b s i)) = t"
  "hasBeenHealthy (wstate (blankRemoteWorker t b s i)) = False"
  "rw_schedulerID (blankRemoteWorker t b s i) = i"
  by (simp_all add: blankRemoteWorker_def mkRemoteWorkerState_def)

lemma updateNewWorkerE:
  assumes "updateNewWorker F C w_new s w u ow = Some (w', u', ow')"
  obtains ow1 w2 ow2 where
    "(if getState w \<noteq> MUST_DIE then deadWorkerCob C w ow else Some ow) = Some ow1"
    "newWorkerCob C w2 ow1 = Some ow2" "w2 = blankRemoteWorker (curTime u) w_new s (rw_schedulerID w)"
    "rw_updateState F C False (w2\<lparr>wstate := (wstate w2)\<lparr>timeLastHeartbeatReceived := curTime u\<rparr>\<rparr>)
      (lose_all (rw_runningTasks w) u) ow2 = Some (w', u', ow')"
  using assms
  by (auto simp: updateNewWorker_def mkRemoteWorker_def loseRunningTasks_def bind_eq_Some_conv Let_def
      split: if_split_asm)

lemma rw_processHeartbeat_cases [consumes 1, case_names rejected replaced current]:
  assumes "rw_processHeartbeat F C w_new s p w u ow = Some (r, w', u', ow')"
  obtains "r = None" "w' = w" "ow' = ow" "lostRunningTasks u' = lostRunningTasks u"
  | u1 where "updateNewWorker F C w_new s w u1 ow = Some (w', u', ow')" "curTime u1 = curTime u"
      "lostRunningTasks u1 = lostRunningTasks u" "r = Some (getHeartbeatResponse F (wstate w'))"
  | u1 where "updateCurrentWorker F C w_new s p w u1 ow = Some (w', u', ow')" "curTime u1 = curTime u"
      "lostRunningTasks u1 = lostRunningTasks u" "worker_id w_new = worker_id (worker w)"
      "r = Some (getHeartbeatResponse F (wstate w'))"
  using assms by (auto simp: rw_processHeartbeat_def Let_def split: if_split_asm)

section \<open>Invariant of a worker\<close>

text \<open>
  Task maps are keyed by their tasks, and a worker that is lost or whose tasks
  are not yet known has no running tasks.
\<close>

definition task_map_ok :: "TaskMap \<Rightarrow> bool" where
  "task_map_ok m \<longleftrightarrow> um_wf m \<and> (\<forall>(k, rt) \<in> set m. k = rt_id rt)"

definition rw_inv :: "RemoteWorker \<Rightarrow> bool" where
  "rw_inv w \<longleftrightarrow> task_map_ok (rw_runningTasks w) \<and> task_map_ok (unsureIfRunningTasks w)
     \<and> (getState w \<in> {NEW, MUST_DIE} \<longrightarrow> rw_runningTasks w = [])
     \<and> (getState w = HEALTHY \<longrightarrow> hasBeenHealthy (wstate w))
     \<and> repeatsOfUnsureIfRunningCheck w \<le> kMaxBackoffForUnsureIfRunningCheck"

lemma task_map_ok_Nil [simp]: "task_map_ok []"
  by (simp add: task_map_ok_def)

lemma task_map_ok_emplace [simp]: "task_map_ok m \<Longrightarrow> task_map_ok (fst (um_emplace m (rt_id rt) rt))"
  by (auto simp: task_map_ok_def um_emplace_def um_wf_def map_of_eq_None_iff split: option.splits)

lemma task_map_ok_delete [simp]: "task_map_ok m \<Longrightarrow> task_map_ok (AList.delete k m)"
  unfolding task_map_ok_def by (rule conjI, simp) (auto simp: AList.delete_eq)

lemma rw_inv_blank [simp]: "rw_inv (blankRemoteWorker t b s i)"
  by (simp add: rw_inv_def getState_def)

lemma rw_inv_frame [simp]:
  "rw_inv (w\<lparr>wstate := (wstate w)\<lparr>timeLastHeartbeatReceived := t\<rparr>\<rparr>) = rw_inv w"
  "rw_inv (w\<lparr>wstate := (wstate w)\<lparr>timeLastGoodHealthcheckSent := t\<rparr>\<rparr>) = rw_inv w"
  "rw_inv (w\<lparr>worker := b\<rparr>) = rw_inv w"
  "rw_inv (w\<lparr>indirectWorkerSetID := i\<rparr>) = rw_inv w"
  "rw_inv (w\<lparr>firstAssociatedWorkerSetID := i\<rparr>) = rw_inv w"
  "rw_inv (w\<lparr>workerSetID := i\<rparr>) = rw_inv w"
  by (simp_all add: rw_inv_def getState_def)

lemma rw_updateState_inv:
  assumes upd: "rw_updateState F C p w u ow = Some (w', u', ow')" and "rw_inv w"
  shows "rw_inv w'"
proof (cases "getState w = MUST_DIE")
  case True
  with assms show ?thesis by (simp add: rw_updateState_dead)
next
  case alive: False
  have rep: "repeatsOfUnsureIfRunningCheck w' \<le> kMaxBackoffForUnsureIfRunningCheck"
    using repeats_bounded [OF upd] assms(2) by (simp add: rw_inv_def)
  show ?thesis
  proof (cases "fst (rw_computeState F w (curTime u) p) = MUST_DIE")
    case True
    from rw_updateState_lost [OF upd alive this] rep show ?thesis by (simp add: rw_inv_def)
  next
    case False
    have "getState w = NEW" if "fst (rw_computeState F w (curTime u) p) = NEW"
      using that by (simp add: rw_computeState_def getState_def computeState_NEW_iff)
    with rw_updateState_alive [OF upd alive False] rep assms(2) False show ?thesis
      by (simp add: rw_inv_def)
  qed
qed

text \<open>A check moves a task to the lost tasks or leaves it where it is.\<close>

definition tasks_accounted :: "RemoteWorker \<Rightarrow> RemoteWorker \<Rightarrow> RemoteWorkerUpdate \<Rightarrow> bool" where
  "tasks_accounted w w' u' \<longleftrightarrow> rw_runningTasks w' = rw_runningTasks w
     \<or> rw_runningTasks w' = [] \<and> fst ` set (rw_runningTasks w) \<subseteq> dom (map_of (lostRunningTasks u'))"

lemma rw_updateState_accounts:
  assumes upd: "rw_updateState F C p w u ow = Some (w', u', ow')"
  shows "tasks_accounted w w' u'" "dom (map_of (lostRunningTasks u)) \<subseteq> dom (map_of (lostRunningTasks u'))"
proof -
  have "tasks_accounted w w' u' \<and> dom (map_of (lostRunningTasks u)) \<subseteq> dom (map_of (lostRunningTasks u'))"
  proof (cases "getState w = MUST_DIE")
    case True
    with upd show ?thesis by (simp add: rw_updateState_dead tasks_accounted_def)
  next
    case alive: False
    show ?thesis
    proof (cases "fst (rw_computeState F w (curTime u) p) = MUST_DIE")
      case True
      from rw_updateState_lost [OF upd alive this] show ?thesis
        by (simp add: tasks_accounted_def dom_lose_all)
    next
      case False
      from rw_updateState_alive [OF upd alive this] show ?thesis by (simp add: tasks_accounted_def)
    qed
  qed
  then show "tasks_accounted w w' u'" "dom (map_of (lostRunningTasks u)) \<subseteq> dom (map_of (lostRunningTasks u'))"
    by simp_all
qed

lemma updateNewWorker_inv:
  assumes "updateNewWorker F C w_new s w u ow = Some (w', u', ow')"
  shows "rw_inv w'" "tasks_accounted w w' u'"
proof -
  obtain ow1 w2 ow2 where
    mk: "w2 = blankRemoteWorker (curTime u) w_new s (rw_schedulerID w)"
    and upd: "rw_updateState F C False (w2\<lparr>wstate := (wstate w2)\<lparr>timeLastHeartbeatReceived := curTime u\<rparr>\<rparr>)
      (lose_all (rw_runningTasks w) u) ow2 = Some (w', u', ow')"
    by (rule updateNewWorkerE [OF assms]) 
  show "rw_inv w'" by (rule rw_updateState_inv [OF upd]) (simp add: mk)
  have "rw_runningTasks w' = []"
    using rw_updateState_accounts(1) [OF upd] by (simp add: tasks_accounted_def mk)
  moreover have "fst ` set (rw_runningTasks w) \<subseteq> dom (map_of (lostRunningTasks u'))"
    using rw_updateState_accounts(2) [OF upd] by (simp add: dom_lose_all)
  ultimately show "tasks_accounted w w' u'" by (simp add: tasks_accounted_def)
qed

subsection \<open>Task statuses keep the invariant\<close>

lemma recordRunning_inv:
  "recordRunningTaskStatus rt st w = Some w' \<Longrightarrow> rw_inv w \<Longrightarrow> isHealthy w \<Longrightarrow> rw_inv w' \<and> getState w' = getState w"
  using task_map_ok_emplace [of "rw_runningTasks w" rt]
  by (auto simp: recordRunningTaskStatus_def rw_inv_def isHealthy_def getState_def split_beta
      simp del: task_map_ok_emplace split: if_split_asm)

lemma recordNonRunningImpl_inv:
  "rw_inv w \<Longrightarrow> rw_inv (snd (recordNonRunningTaskStatusImpl rt st w))"
  by (auto simp: recordNonRunningTaskStatusImpl_def rw_inv_def getState_def split: option.split)

lemma recordFailed_inv: "recordFailedTask rt st w = Some w' \<Longrightarrow> rw_inv w \<Longrightarrow> rw_inv w'"
  using recordNonRunningImpl_inv [of w rt st]
  by (auto simp: recordFailedTask_def split_beta split: if_split_asm)

lemma recordNonRunning_inv:
  "recordNonRunningTaskStatus rt st i w = Some (Inr (b, w')) \<Longrightarrow> rw_inv w \<Longrightarrow> rw_inv w'"
  using recordNonRunningImpl_inv [of w rt st]
  by (auto simp: recordNonRunningTaskStatus_def split: if_split_asm)

lemma initialize_inv:
  assumes "rw_initializeRunningTasks rts w = Some w'" "rw_inv w"
  shows "rw_inv w' \<and> getState w' = UNHEALTHY"
proof -
  let ?f = "\<lambda>rt w. if workerShard rt \<noteq> shard (worker w) then None
     else case um_emplace (rw_runningTasks w) (rt_id rt) rt of
       (m, fresh) \<Rightarrow> if fresh then Some (w\<lparr>rw_runningTasks := m\<rparr>) else None"
  let ?I = "\<lambda>w. task_map_ok (rw_runningTasks w) \<and> task_map_ok (unsureIfRunningTasks w)
     \<and> repeatsOfUnsureIfRunningCheck w \<le> kMaxBackoffForUnsureIfRunningCheck"
  from assms obtain w1 where fold: "foldO ?f rts w = Some w1" and w': "w' = setState UNHEALTHY w1"
    by (auto simp: rw_initializeRunningTasks_def bind_eq_Some_conv split: if_split_asm)
  have "?I w1"
  proof (rule foldO_invariant [OF fold])
    show "?I w" using assms(2) by (simp add: rw_inv_def)
    show "?I v'" if "?I v" "?f rt v = Some v'" for rt v v'
      using that task_map_ok_emplace [of "rw_runningTasks v" rt] by (auto simp: split_beta split: if_split_asm)
  qed
  then show ?thesis by (simp add: w' rw_inv_def)
qed

lemma rw_initialize_frame:
  assumes "rw_initializeRunningTasks rts w = Some w'"
  shows "worker w' = worker w \<and> initialWorkerSetID w' = initialWorkerSetID w"
proof -
  let ?f = "\<lambda>rt w. if workerShard rt \<noteq> shard (worker w) then None
     else case um_emplace (rw_runningTasks w) (rt_id rt) rt of
       (m, fresh) \<Rightarrow> if fresh then Some (w\<lparr>rw_runningTasks := m\<rparr>) else None"
  from assms obtain w1 where fold: "foldO ?f rts w = Some w1" and w': "w' = setState UNHEALTHY w1"
    by (auto simp: rw_initializeRunningTasks_def bind_eq_Some_conv split: if_split_asm)
  have "worker w1 = worker w \<and> initialWorkerSetID w1 = initialWorkerSetID w"
    by (rule foldO_invariant [OF fold]) (auto simp: split_beta split: if_split_asm)
  then show ?thesis by (simp add: w')
qed

lemma addUnsure_inv: "addUnsureIfRunningTask rt w = Some w' \<Longrightarrow> rw_inv w \<Longrightarrow> rw_inv w'"
  using task_map_ok_emplace [of "unsureIfRunningTasks w" rt]
  by (auto simp: addUnsureIfRunningTask_def rw_inv_def getState_def split_beta simp del: task_map_ok_emplace
      split: if_split_asm)

lemma erase_inv: "rw_inv w \<Longrightarrow> rw_inv (w\<lparr>unsureIfRunningTasks := AList.delete k (unsureIfRunningTasks w)\<rparr>)"
  by (simp add: rw_inv_def getState_def)

lemma eraseUnsure_inv:
  assumes "eraseUnsureIfRunningTasks rts w = Some w'" "rw_inv w"
  shows "rw_inv w'"
proof (rule foldO_invariant [OF assms(1) [unfolded eraseUnsureIfRunningTasks_def], where I = rw_inv])
  show "rw_inv w" by (rule assms(2))
next
  fix rt v v'
  assume "rw_inv v" and "(if workerShard rt \<noteq> shard (worker v) then None
        else case map_of (unsureIfRunningTasks v) (rt_id rt) of
            None \<Rightarrow> Some v
          | Some cur \<Rightarrow>
              if invocationID cur \<noteq> invocationID rt then Some v
              else Some (v\<lparr>unsureIfRunningTasks := AList.delete (rt_id rt) (unsureIfRunningTasks v)\<rparr>)) = Some v'"
  then show "rw_inv v'" using erase_inv [of v "rt_id rt"] by (simp split: if_split_asm option.splits)
qed

section \<open>The owner of a worker\<close>

text \<open>
  What a worker relies on in its owner's callbacks, and what the owner keeps
  as a result.  An owner that keeps books on its live workers, by instance and
  initial worker set, has books \<open>holds M\<close> for the multiset \<open>M\<close>; a worker is on
  the books exactly as long as it is not lost.
\<close>

type_synonym LiveWorker = "BistroInstanceID \<times> WorkerSetID"

definition live_key :: "RemoteWorker \<Rightarrow> LiveWorker" where
  "live_key w = (worker_id (worker w), initialWorkerSetID w)"

definition live_mset :: "RemoteWorker \<Rightarrow> LiveWorker multiset" where
  "live_mset w = (if getState w = MUST_DIE then {#} else {#live_key w#})"

locale worker_owner =
  fixes C :: "'o WorkerCobs"
    and holds :: "LiveWorker multiset \<Rightarrow> 'o \<Rightarrow> bool"
  assumes new_worker: "newWorkerCob C w ow = Some ow' \<Longrightarrow> holds M ow \<Longrightarrow> holds (add_mset (live_key w) M) ow'"
    and dead_worker: "deadWorkerCob C w ow = Some ow' \<Longrightarrow> holds (add_mset (live_key w) M) ow \<Longrightarrow> holds M ow'"
    and set_change: "workerSetIDChangeCob C w s ow = Some (w', ow') \<Longrightarrow> \<exists>i. w' = w\<lparr>indirectWorkerSetID := i\<rparr>"
    and set_change_holds: "workerSetIDChangeCob C w s ow = Some (w', ow') \<Longrightarrow> holds M ow \<Longrightarrow> holds M ow'"
begin

lemma updateState_books:
  assumes "rw_updateState F C p w u ow = Some (w', u', ow')" "holds (live_mset w + M) ow"
  shows "holds (live_mset w' + M) ow'"
proof (cases "getState w = MUST_DIE")
  case True
  with assms show ?thesis by (simp add: rw_updateState_dead)
next
  case alive: False
  show ?thesis
  proof (cases "fst (rw_computeState F w (curTime u) p) = MUST_DIE")
    case True
    with rw_updateState_lost [OF assms(1) alive] assms(2) dead_worker alive show ?thesis
      by (simp add: live_mset_def)
  next
    case False
    with rw_updateState_alive [OF assms(1) alive] assms(2) alive show ?thesis
      by (simp add: live_mset_def live_key_def)
  qed
qed

lemma update_worker_set_frame:
  assumes "update_worker_set C s w ow = Some (w', ow')"
  shows "\<exists>a b c. w' = w\<lparr>indirectWorkerSetID := a, firstAssociatedWorkerSetID := b, workerSetID := c\<rparr>"
    and "holds M ow \<Longrightarrow> holds M ow'"
proof -
  from update_worker_set_cases [OF assms] have
    "(\<exists>a b c. w' = w\<lparr>indirectWorkerSetID := a, firstAssociatedWorkerSetID := b, workerSetID := c\<rparr>)
       \<and> (holds M ow \<longrightarrow> holds M ow')"
  proof
    assume "w' = w \<and> ow' = ow"
    then show ?thesis by (cases w) auto
  next
    assume "\<exists>w1 f. workerSetIDChangeCob C w s ow = Some (w1, ow')
      \<and> w' = w1\<lparr>firstAssociatedWorkerSetID := f, workerSetID := Some s\<rparr>"
    then obtain w1 f where ch: "workerSetIDChangeCob C w s ow = Some (w1, ow')"
      and w': "w' = w1\<lparr>firstAssociatedWorkerSetID := f, workerSetID := Some s\<rparr>" by blast
    obtain i where "w1 = w\<lparr>indirectWorkerSetID := i\<rparr>" using set_change [OF ch] by blast
    with w' set_change_holds [OF ch] show ?thesis by (cases w) auto
  qed
  then show "\<exists>a b c. w' = w\<lparr>indirectWorkerSetID := a, firstAssociatedWorkerSetID := b, workerSetID := c\<rparr>"
    and "holds M ow \<Longrightarrow> holds M ow'" by blast+
qed

lemma updateCurrentWorker_books:
  assumes upd: "updateCurrentWorker F C w_new s p w u ow = Some (w', u', ow')"
    and same: "worker_id w_new = worker_id (worker w)" and books: "holds (live_mset w + M) ow"
  shows "holds (live_mset w' + M) ow'"
proof -
  from upd obtain w1 ow1 where
    set: "update_worker_set C s (w\<lparr>worker := w_new\<rparr>) ow = Some (w1, ow1)"
    and upd': "rw_updateState F C p (w1\<lparr>wstate := (wstate w1)\<lparr>timeLastHeartbeatReceived := curTime u\<rparr>\<rparr>) u ow1
      = Some (w', u', ow')"
    by (auto simp: updateCurrentWorker_def bind_eq_Some_conv)
  obtain a b c where "w1 = w\<lparr>worker := w_new, indirectWorkerSetID := a, firstAssociatedWorkerSetID := b, workerSetID := c\<rparr>"
    using update_worker_set_frame(1) [OF set] by auto
  then have "live_mset (w1\<lparr>wstate := (wstate w1)\<lparr>timeLastHeartbeatReceived := curTime u\<rparr>\<rparr>) = live_mset w"
    using same by (simp add: live_mset_def live_key_def getState_def)
  with updateState_books [OF upd'] update_worker_set_frame(2) [OF set books] show ?thesis by simp
qed

lemma updateNewWorker_books:
  assumes upd: "updateNewWorker F C w_new s w u ow = Some (w', u', ow')"
    and books: "holds (live_mset w + M) ow"
  shows "holds (live_mset w' + M) ow'"
proof -
  obtain ow1 w2 ow2 where
    dead: "(if getState w \<noteq> MUST_DIE then deadWorkerCob C w ow else Some ow) = Some ow1"
    and mk: "newWorkerCob C w2 ow1 = Some ow2" "w2 = blankRemoteWorker (curTime u) w_new s (rw_schedulerID w)"
    and upd': "rw_updateState F C False (w2\<lparr>wstate := (wstate w2)\<lparr>timeLastHeartbeatReceived := curTime u\<rparr>\<rparr>)
      (lose_all (rw_runningTasks w) u) ow2 = Some (w', u', ow')"
    by (rule updateNewWorkerE [OF upd])
  have "holds M ow1"
    using dead books dead_worker [of w ow ow1 M] by (auto simp: live_mset_def split: if_split_asm)
  then have "holds (live_mset (w2\<lparr>wstate := (wstate w2)\<lparr>timeLastHeartbeatReceived := curTime u\<rparr>\<rparr>) + M) ow2"
    using new_worker [OF mk(1)] mk(2) by (simp add: live_mset_def live_key_def getState_def)
  then show ?thesis by (rule updateState_books [OF upd'])
qed

lemma processHeartbeat_books:
  assumes "rw_processHeartbeat F C w_new s p w u ow = Some (r, w', u', ow')" "holds (live_mset w + M) ow"
  shows "holds (live_mset w' + M) ow'"
  using assms(1)
proof (cases rule: rw_processHeartbeat_cases)
  case rejected
  with assms(2) show ?thesis by simp
next
  case (replaced u1)
  then show ?thesis using updateNewWorker_books assms(2) by blast
next
  case (current u1)
  then show ?thesis using updateCurrentWorker_books assms(2) by metis
qed

lemma updateCurrentWorker_inv:
  assumes upd: "updateCurrentWorker F C w_new s p w u ow = Some (w', u', ow')"
  shows "rw_inv w \<Longrightarrow> rw_inv w'" "tasks_accounted w w' u'"
proof -
  from upd obtain w1 ow1 where
    set: "update_worker_set C s (w\<lparr>worker := w_new\<rparr>) ow = Some (w1, ow1)"
    and upd': "rw_updateState F C p (w1\<lparr>wstate := (wstate w1)\<lparr>timeLastHeartbeatReceived := curTime u\<rparr>\<rparr>) u ow1
      = Some (w', u', ow')"
    by (auto simp: updateCurrentWorker_def bind_eq_Some_conv)
  obtain a b c where w1: "w1 = w\<lparr>worker := w_new, indirectWorkerSetID := a, firstAssociatedWorkerSetID := b, workerSetID := c\<rparr>"
    using update_worker_set_frame(1) [OF set] by auto
  show "rw_inv w \<Longrightarrow> rw_inv w'"
    by (rule rw_updateState_inv [OF upd']) (simp add: w1 rw_inv_def getState_def)
  show "tasks_accounted w w' u'"
    using rw_updateState_accounts(1) [OF upd'] by (simp add: w1 tasks_accounted_def)
qed

lemma processHeartbeat_inv:
  assumes "rw_processHeartbeat F C w_new s p w u ow = Some (r, w', u', ow')"
  shows "rw_inv w \<longrightarrow> rw_inv w'" "tasks_accounted w w' u'"
proof -
  from assms have "(rw_inv w \<longrightarrow> rw_inv w') \<and> tasks_accounted w w' u'"
  proof (cases rule: rw_processHeartbeat_cases)
    case rejected
    then show ?thesis by (simp add: tasks_accounted_def)
  next
    case (replaced u1)
    from updateNewWorker_inv [OF this(1)] show ?thesis by simp
  next
    case (current u1)
    from updateCurrentWorker_inv [OF this(1)] show ?thesis by simp
  qed
  then show "rw_inv w \<longrightarrow> rw_inv w'" "tasks_accounted w w' u'" by simp_all
qed

end

section \<open>Properties\<close>

definition NoOpCobs :: "'o WorkerCobs" where
  "NoOpCobs = \<lparr>newWorkerCob = \<lambda>w ow. Some ow, deadWorkerCob = \<lambda>w ow. Some ow,
     workerSetIDChangeCob = \<lambda>w s ow. Some (w, ow)\<rparr>"

definition example_flags :: RemoteFlags where
  "example_flags = \<lparr>FLAGS_healthcheck_period = 15, FLAGS_healthcheck_grace_period = 60,
     FLAGS_worker_check_interval = 5, FLAGS_heartbeat_grace_period = 60,
     FLAGS_lose_unhealthy_worker_after = 500,
     FLAGS_CAUTION_worker_suicide_backoff_safety_margin_sec = 60,
     FLAGS_CAUTION_worker_suicide_task_kill_wait_ms = 5000,
     FLAGS_unsure_if_running_check_initial_period = 5,
     FLAGS_CAUTION_startup_wait_for_workers = -1, FLAGS_allow_bump_unhealthy_worker = False\<rparr>"

definition example_bistro_worker :: "string \<Rightarrow> BistroWorker" where
  "example_bistro_worker s = \<lparr>shard = s, machineLock = \<lparr>hostname = ''host'', lock_port = 80\<rparr>,
     addr = \<lparr>ip_or_host = ''host'', addr_port = 80\<rparr>, worker_id = \<lparr>startTime = 7, rand = 42\<rparr>,
     heartbeatPeriodSec = 15, protocolVersion = kProtocolVersion\<rparr>"

definition example_running_task :: RunningTask where
  "example_running_task = \<lparr>rt_job = ''job'', rt_node = ''node'', nodeResources = [], workerShard = ''w1'',
     invocationID = \<lparr>startTime = 1, rand = 1\<rparr>, nextBackoffDuration = \<lparr>noMoreBackoffs = False, seconds = 15\<rparr>,
     workerSuicideTaskKillWaitMs = 0\<rparr>"

text \<open>A worker that ran one task and became unhealthy at time 1000.\<close>

definition example_remote_worker :: RemoteWorker where
  "example_remote_worker =
     (blankRemoteWorker 0 (example_bistro_worker ''w1'') defaultWorkerSetID \<lparr>startTime = 3, rand = 4\<rparr>)
       \<lparr>wstate := \<lparr>state = UNHEALTHY, timeBecameUnhealthy = 1000, timeLastGoodHealthcheckSent = 900,
          timeLastHeartbeatReceived = 900, hasBeenHealthy = True, notifyIfTasksNotRunningSequenceNum = 0\<rparr>,
        rw_runningTasks := [((''job'', ''node''), example_running_task)]\<rparr>"

text \<open>The transitions that a periodic check can make.\<close>

definition health_transition :: "WorkerState \<Rightarrow> WorkerState \<Rightarrow> bool" where
  "health_transition st st' \<longleftrightarrow> (case st of
      NEW \<Rightarrow> st' \<in> {NEW, MUST_DIE}
    | HEALTHY \<Rightarrow> st' \<in> {HEALTHY, UNHEALTHY}
    | UNHEALTHY \<Rightarrow> st' \<noteq> NEW
    | MUST_DIE \<Rightarrow> st' = MUST_DIE)"

lemma computeState_transition: "health_transition (state s) (fst (computeState s t g h l p))"
  by (auto simp: health_transition_def computeState_cases split: WorkerState.split)

text \<open>C8: The health state machine of a worker.  A periodic check makes only the
  transitions of \<^const>\<open>health_transition\<close>: in particular a lost worker stays
  lost, a healthy one is never lost directly, and no check leaves the new
  state but to lose the worker.  A worker is healthy for the first time only
  with the consent of the worker-set consensus.  When the check loses the
  worker, it had been unhealthy (or new) for more than
  \<^verbatim>\<open>--lose_unhealthy_worker_after\<close> seconds, its suicide is requested, and every
  task that ran there is moved to the lost tasks.
\<close>

theorem health_check_transitions:
  assumes "rw_updateState F C p w u ow = Some (w', u', ow')"
  shows "health_transition (getState w) (getState w')
    \<and> (hasBeenHealthy (wstate w') \<longrightarrow> hasBeenHealthy (wstate w) \<or> p)
    \<and> (getState w' = MUST_DIE \<and> getState w \<noteq> MUST_DIE \<longrightarrow>
        curTime u > timeBecameUnhealthy (wstate w) + loseUnhealthyWorkerAfter F
        \<and> shard (worker w) \<in> dom (map_of (suicideWorkers u'))
        \<and> rw_runningTasks w' = [] \<and> fst ` set (rw_runningTasks w) \<subseteq> dom (map_of (lostRunningTasks u')))"
proof (cases "getState w = MUST_DIE")
  case True
  with assms show ?thesis by (simp add: rw_updateState_dead health_transition_def)
next
  case alive: False
  let ?st = "fst (rw_computeState F w (curTime u) p)"
  have trans: "health_transition (getState w) ?st"
    by (simp add: rw_computeState_def getState_def computeState_transition)
  show ?thesis
  proof (cases "?st = MUST_DIE")
    case True
    have "curTime u > timeBecameUnhealthy (wstate w) + loseUnhealthyWorkerAfter F"
      using computeState_lost [OF True [unfolded rw_computeState_def]] alive by (simp add: getState_def)
    with rw_updateState_lost [OF assms alive True] trans True show ?thesis
      by (simp add: dom_suicide dom_lose_all)
  next
    case False
    have "?st = HEALTHY \<Longrightarrow> p \<or> hasBeenHealthy (wstate w)"
      by (simp add: rw_computeState_def computeState_healthy_iff)
    with rw_updateState_alive [OF assms alive False] trans False show ?thesis by auto
  qed
qed

theorem health_check_transitions_witness:
  "\<exists>w' u'. rw_updateState example_flags NoOpCobs False example_remote_worker (mkRemoteWorkerUpdate 2000) ()
       = Some (w', u', ())
     \<and> getState w' = MUST_DIE \<and> (''job'', ''node'') \<in> dom (map_of (lostRunningTasks u'))"
proof -
  obtain w' u' where run: "rw_updateState example_flags NoOpCobs False example_remote_worker
      (mkRemoteWorkerUpdate 2000) () = Some (w', u', ())" and "getState w' = MUST_DIE"
    by (simp add: rw_updateState_def rw_computeState_def computeState_def example_remote_worker_def
      getState_def loseUnhealthyWorkerAfter_def maxHealthcheckGap_def workerCheckInterval_def
      example_flags_def mkRemoteWorkerUpdate_def NoOpCobs_def split_beta loseRunningTasks_def setState_def)
  with health_check_transitions [OF run] show ?thesis
    by (simp add: example_remote_worker_def getState_def)
qed



text \<open>C36: A task in doubt brings the scheduler down.  When the failure of a
  \<^verbatim>\<open>runTask\<close> request is processed only after a new instance of the worker has
  connected, the task is added to the tasks in doubt of a worker that is still
  new; when that worker reports its running tasks, whatever they are, the
  \<^verbatim>\<open>CHECK\<close> in \<^verbatim>\<open>initializeRunningTasks\<close> aborts the process.
\<close>

theorem late_unsure_task_aborts:
  assumes "getState w = NEW" "addUnsureIfRunningTask rt w = Some w'"
  shows "getState w' = NEW \<and> rw_initializeRunningTasks running_tasks w' = None"
  using assms
  by (auto simp: addUnsureIfRunningTask_def rw_initializeRunningTasks_def um_emplace_def getState_def
      split: option.split_asm)

theorem late_unsure_task_aborts_witness:
  "let w = blankRemoteWorker 0 (example_bistro_worker ''w1'') defaultWorkerSetID defaultInstanceID
   in (case addUnsureIfRunningTask example_running_task w of None \<Rightarrow> False
       | Some w' \<Rightarrow> rw_initializeRunningTasks [] w' = None)"
  using late_unsure_task_aborts [of "blankRemoteWorker 0 (example_bistro_worker ''w1'') defaultWorkerSetID defaultInstanceID"
      example_running_task]
  by (simp add: addUnsureIfRunningTask_def um_emplace_def getState_def Let_def)

end
