(* ===== verification/Remote_Workers.thy ===== *)
theory Remote_Workers
  imports Remote_Worker "HOL-Library.List_Lexorder" "HOL-Library.Char_ord"
begin

text \<open>
  \<^verbatim>\<open>remote/RemoteWorkers.{h,cpp}\<close>: all workers of a scheduler, the versioned set
  of those that are not lost, the consensus that lets a worker become healthy,
  and the initial wait of a restarted scheduler.
\<close>

section \<open>State\<close>

record HistoryStep =
  removed :: "string option"
  added :: "string list"

type_synonym History = "(u64 \<times> HistoryStep) list"
type_synonym VersionShardSet = "(u64 \<times> string) list"

text \<open>
  The per-host pools share the workers of the main pool by pointer; here they
  hold the shards, which are the keys of both.
\<close>

record HostPool =
  host_shards :: "string list"
  host_nextShard :: string

text \<open>
  The \<^verbatim>\<open>std::map\<close> and the \<^verbatim>\<open>std::set\<close> are lists in the order of their
  comparator, the \<^verbatim>\<open>std::multiset\<close> is a list of which only the contents count.
\<close>

record RemoteWorkers =
  inInitialWait :: bool
  rws_startTime :: int
  initialWorkerSetIDs :: "WorkerSetID list"
  indirectVersions :: VersionShardSet
  nonMustDieWorkerSetID :: WorkerSetID
  history :: History
  rws_schedulerID :: BistroInstanceID
  workerPool :: "(string \<times> RemoteWorker) list"
  pool_nextShard :: string
  hostToWorkerPool :: "(string \<times> HostPool) list"

definition mkRemoteWorkers :: "int \<Rightarrow> BistroInstanceID \<Rightarrow> RemoteWorkers" where
  "mkRemoteWorkers start_time scheduler_id =
     \<lparr>inInitialWait = True, rws_startTime = start_time, initialWorkerSetIDs = [], indirectVersions = [],
      nonMustDieWorkerSetID = defaultWorkerSetID\<lparr>wsid_schedulerID := scheduler_id\<rparr>, history = [],
      rws_schedulerID = scheduler_id, workerPool = [], pool_nextShard = [], hostToWorkerPool = []\<rparr>"

section \<open>Ordered containers\<close>

text \<open>
  The comparator of the containers.  Which elements a search compares depends
  on the shape of the tree, so the abort for versions exactly \<open>2 ^ 63\<close> apart is
  not modelled here; such versions count as not ordered.
\<close>

definition version_earlier :: "u64 \<Rightarrow> u64 \<Rightarrow> bool" where
  "version_earlier a b \<longleftrightarrow> WorkerSetIDEarlierThan a b = Some True"

definition VersionAndShardEarlierThan :: "u64 \<times> string \<Rightarrow> u64 \<times> string \<Rightarrow> bool" where
  "VersionAndShardEarlierThan a b \<longleftrightarrow>
     version_earlier (fst a) (fst b) \<or> fst a = fst b \<and> snd a < snd b"

fun vss_emplace :: "u64 \<times> string \<Rightarrow> VersionShardSet \<Rightarrow> VersionShardSet \<times> bool" where
  "vss_emplace x [] = ([x], True)"
| "vss_emplace x (y # ys) =
     (if VersionAndShardEarlierThan y x then (case vss_emplace x ys of (ys', fresh) \<Rightarrow> (y # ys', fresh))
      else if VersionAndShardEarlierThan x y then (x # y # ys, True)
      else (y # ys, False))"

fun history_emplace :: "u64 \<Rightarrow> HistoryStep \<Rightarrow> History \<Rightarrow> History option" where
  "history_emplace v step [] = Some [(v, step)]"
| "history_emplace v step ((v', step') # h) =
     (if version_earlier v' v then map_option (Cons (v', step')) (history_emplace v step h)
      else if version_earlier v v' then Some ((v, step) # (v', step') # h)
      else None)"

definition addToVersionShardSet :: "VersionShardSet \<Rightarrow> WorkerSetID \<Rightarrow> string \<Rightarrow> VersionShardSet option" where
  "addToVersionShardSet vss i s =
     (case vss_emplace (wsid_version i, s) vss of (vss', fresh) \<Rightarrow> if fresh then Some vss' else None)"

definition removeFromVersionShardSet :: "VersionShardSet \<Rightarrow> WorkerSetID \<Rightarrow> string \<Rightarrow> VersionShardSet option" where
  "removeFromVersionShardSet vss i s =
     (if (wsid_version i, s) \<in> set vss then Some (remove1 (wsid_version i, s) vss) else None)"

section \<open>Consensus\<close>

definition updateIndirectWorkerSetVersion ::
  "RemoteWorker \<Rightarrow> WorkerSetID \<Rightarrow> RemoteWorkers \<Rightarrow> (RemoteWorker \<times> RemoteWorkers) option" where
  "updateIndirectWorkerSetVersion w new_id R =
     (let s = shard (worker w)
      in case indirectWorkerSetID w of
          None \<Rightarrow> do {
            vss \<leftarrow> addToVersionShardSet (indirectVersions R) new_id s;
            Some (w\<lparr>indirectWorkerSetID := Some new_id\<rparr>, R\<lparr>indirectVersions := vss\<rparr>)
          }
        | Some cur \<Rightarrow>
            if wsid_schedulerID cur \<noteq> rws_schedulerID R then None
            else do {
              earlier \<leftarrow> WorkerSetIDEarlierThan (wsid_version cur) (wsid_version new_id);
              if \<not> earlier then Some (w, R)
              else do {
                vss \<leftarrow> removeFromVersionShardSet (indirectVersions R) cur s;
                vss' \<leftarrow> addToVersionShardSet vss new_id s;
                Some (w\<lparr>indirectWorkerSetID := Some new_id\<rparr>, R\<lparr>indirectVersions := vss'\<rparr>)
              }
            })"

text \<open>The three callbacks that \<^verbatim>\<open>processHeartbeat\<close> gives to each worker.\<close>

definition bump_version :: "HistoryStep \<Rightarrow> WorkerSetHash \<Rightarrow> RemoteWorkers \<Rightarrow> RemoteWorkers option" where
  "bump_version step h R =
     (let i = (nonMustDieWorkerSetID R)\<lparr>wsid_hash := h, wsid_version := wsid_version (nonMustDieWorkerSetID R) + 1\<rparr>
      in do {
        hist \<leftarrow> history_emplace (wsid_version i) step (history R);
        Some (R\<lparr>nonMustDieWorkerSetID := i, history := hist\<rparr>)
      })"

definition new_worker_cob :: "RemoteWorker \<Rightarrow> RemoteWorkers \<Rightarrow> RemoteWorkers option" where
  "new_worker_cob w R =
     (if workerSetID w \<noteq> None \<or> indirectWorkerSetID w \<noteq> None \<or> firstAssociatedWorkerSetID w \<noteq> None then None
      else bump_version \<lparr>removed = None, added = [shard (worker w)]\<rparr>
        (addWorkerIDToHash (worker_id (worker w)) (wsid_hash (nonMustDieWorkerSetID R)))
        (R\<lparr>initialWorkerSetIDs := initialWorkerSetID w # initialWorkerSetIDs R\<rparr>))"

definition dead_worker_cob :: "RemoteWorker \<Rightarrow> RemoteWorkers \<Rightarrow> RemoteWorkers option" where
  "dead_worker_cob w R =
     (if initialWorkerSetID w \<notin> set (initialWorkerSetIDs R) then None
      else do {
        vss \<leftarrow> (case indirectWorkerSetID w of
            None \<Rightarrow> Some (indirectVersions R)
          | Some i \<Rightarrow>
              if wsid_schedulerID i \<noteq> rws_schedulerID R then None
              else removeFromVersionShardSet (indirectVersions R) i (shard (worker w)));
        h \<leftarrow> removeWorkerIDFromHash (worker_id (worker w)) (wsid_hash (nonMustDieWorkerSetID R));
        bump_version \<lparr>removed = Some (shard (worker w)), added = []\<rparr> h
          (R\<lparr>initialWorkerSetIDs := remove1 (initialWorkerSetID w) (initialWorkerSetIDs R),
             indirectVersions := vss\<rparr>)
      })"

definition set_id_change_cob ::
  "RemoteWorker \<Rightarrow> WorkerSetID \<Rightarrow> RemoteWorkers \<Rightarrow> (RemoteWorker \<times> RemoteWorkers) option" where
  "set_id_change_cob w w_set_id R =
     (if rws_schedulerID R \<noteq> wsid_schedulerID w_set_id then None
      else updateIndirectWorkerSetVersion w w_set_id R)"

definition rws_cobs :: "RemoteWorkers WorkerCobs" where
  "rws_cobs = \<lparr>newWorkerCob = new_worker_cob, deadWorkerCob = dead_worker_cob,
     workerSetIDChangeCob = set_id_change_cob\<rparr>"

definition consensusPermitsBecomingHealthy :: "RemoteWorkers \<Rightarrow> RemoteWorker \<Rightarrow> bool option" where
  "consensusPermitsBecomingHealthy R w =
     (let n = numWorkers (wsid_hash (nonMustDieWorkerSetID R))
      in if n \<noteq> int (length (initialWorkerSetIDs R)) then None
         else if length (initialWorkerSetIDs R) < length (indirectVersions R) then None
         else if workerSetID w \<noteq> Some (nonMustDieWorkerSetID R) then Some False
         else if int (length (indirectVersions R)) \<noteq> n then Some False
         else case (firstAssociatedWorkerSetID w, indirectVersions R) of
             (None, _) \<Rightarrow> Some False
           | (Some i, (v, _) # _) \<Rightarrow> map_option Not (WorkerSetIDEarlierThan v (wsid_version i))
           | (Some i, []) \<Rightarrow> None)"

section \<open>Worker pools\<close>

text \<open>The round robin over the shards of a pool: the shard found, and the next one.\<close>

definition getNextWorker :: "string list \<Rightarrow> string \<Rightarrow> string option \<times> string" where
  "getNextWorker shards next =
     (if shards = [] then (None, next)
      else let ret = (if next \<in> set shards then next else hd shards)
           in case tl (dropWhile (\<lambda>s. s \<noteq> ret) shards) of
                [] \<Rightarrow> (Some ret, hd shards)
              | s # _ \<Rightarrow> (Some ret, s))"

definition rws_getNextWorker :: "RemoteWorkers \<Rightarrow> RemoteWorker option \<times> RemoteWorkers" where
  "rws_getNextWorker R = (case getNextWorker (map fst (workerPool R)) (pool_nextShard R) of
     (found, next) \<Rightarrow> (Option.bind found (map_of (workerPool R)), R\<lparr>pool_nextShard := next\<rparr>))"

definition mutableHostWorkerPool :: "string \<Rightarrow> RemoteWorkers \<Rightarrow> HostPool \<times> RemoteWorkers" where
  "mutableHostWorkerPool host R =
     (case map_of (hostToWorkerPool R) host of
        Some p \<Rightarrow> (p, R)
      | None \<Rightarrow> (let p = \<lparr>host_shards = [], host_nextShard = []\<rparr>
                 in (p, R\<lparr>hostToWorkerPool := (host, p) # hostToWorkerPool R\<rparr>)))"

definition put_host_pool :: "string \<Rightarrow> HostPool \<Rightarrow> RemoteWorkers \<Rightarrow> RemoteWorkers" where
  "put_host_pool host p R = R\<lparr>hostToWorkerPool := AList.update host p (hostToWorkerPool R)\<rparr>"

definition getNextWorkerByHost :: "string \<Rightarrow> RemoteWorkers \<Rightarrow> RemoteWorker option \<times> RemoteWorkers" where
  "getNextWorkerByHost host R =
     (case mutableHostWorkerPool host R of (p, R1) \<Rightarrow>
        case getNextWorker (host_shards p) (host_nextShard p) of (found, next) \<Rightarrow>
          (Option.bind found (map_of (workerPool R1)), put_host_pool host (p\<lparr>host_nextShard := next\<rparr>) R1))"

definition host_pool_emplace :: "string \<Rightarrow> string \<Rightarrow> RemoteWorkers \<Rightarrow> RemoteWorkers option" where
  "host_pool_emplace host s R =
     (case mutableHostWorkerPool host R of (p, R1) \<Rightarrow>
        if s \<in> set (host_shards p) then None
        else Some (put_host_pool host (p\<lparr>host_shards := s # host_shards p\<rparr>) R1))"

definition host_pool_erase :: "string \<Rightarrow> string \<Rightarrow> RemoteWorkers \<Rightarrow> RemoteWorkers option" where
  "host_pool_erase host s R =
     (case mutableHostWorkerPool host R of (p, R1) \<Rightarrow>
        if s \<in> set (host_shards p)
        then Some (put_host_pool host (p\<lparr>host_shards := remove1 s (host_shards p)\<rparr>) R1)
        else None)"

definition getWorker :: "RemoteWorkers \<Rightarrow> string \<Rightarrow> RemoteWorker option" where
  "getWorker R s = map_of (workerPool R) s"

definition put_worker :: "string \<Rightarrow> RemoteWorker \<Rightarrow> RemoteWorkers \<Rightarrow> RemoteWorkers" where
  "put_worker s w R = R\<lparr>workerPool := AList.update s w (workerPool R)\<rparr>"

section \<open>Heartbeats\<close>

text \<open>The first part of \<^verbatim>\<open>processHeartbeat\<close>: a worker for the shard, made if there is none.\<close>

definition find_or_add_worker ::
  "BistroWorker \<Rightarrow> WorkerSetID \<Rightarrow> int \<Rightarrow> RemoteWorkers \<Rightarrow> (RemoteWorker \<times> RemoteWorkers) option" where
  "find_or_add_worker b worker_set_id cur_time R =
     (case map_of (workerPool R) (shard b) of
        Some w \<Rightarrow> Some (w, R)
      | None \<Rightarrow> do {
          (w, R1) \<leftarrow> mkRemoteWorker rws_cobs cur_time b worker_set_id (rws_schedulerID R) R;
          R2 \<leftarrow> host_pool_emplace (hostname (machineLock b)) (shard b)
                 (R1\<lparr>workerPool := (shard b, w) # workerPool R1\<rparr>);
          Some (w, R2)
        })"

definition move_host :: "string \<Rightarrow> string \<Rightarrow> string \<Rightarrow> RemoteWorkers \<Rightarrow> RemoteWorkers option" where
  "move_host s old_hostname new_hostname R =
     (if new_hostname \<noteq> old_hostname
      then do { R1 \<leftarrow> host_pool_erase old_hostname s R; host_pool_emplace new_hostname s R1 }
      else Some R)"

text \<open>The outer option is an abort, the left summand the exception for a wrong protocol version.\<close>

definition rws_processHeartbeat ::
  "RemoteFlags \<Rightarrow> BistroWorker \<Rightarrow> WorkerSetID \<Rightarrow> RemoteWorkerUpdate \<Rightarrow> RemoteWorkers
     \<Rightarrow> (string + SchedulerHeartbeatResponse option \<times> RemoteWorkerUpdate \<times> RemoteWorkers) option" where
  "rws_processHeartbeat F b worker_set_id u R =
     (case enforceWorkerSchedulerProtocolVersion (protocolVersion b) kProtocolVersion of
        Inl e \<Rightarrow> Some (Inl e)
      | Inr _ \<Rightarrow> do {
          (w, R1) \<leftarrow> find_or_add_worker b worker_set_id (curTime u) R;
          permits \<leftarrow> consensusPermitsBecomingHealthy R1 w;
          (response, w', u', R2) \<leftarrow> rw_processHeartbeat F rws_cobs b worker_set_id permits w u R1;
          R3 \<leftarrow> move_host (shard b) (hostname (machineLock (worker w))) (hostname (machineLock (worker w')))
                 (put_worker (shard b) w' R2);
          Some (Inr (map_option (\<lambda>r. r\<lparr>resp_workerSetID := nonMustDieWorkerSetID R3\<rparr>) response, u', R3))
        })"

section \<open>The history of worker sets\<close>

definition mergeHistoryStep :: "HistoryStep \<Rightarrow> string list \<Rightarrow> string list option" where
  "mergeHistoryStep step add =
     do {
       add1 \<leftarrow> (case removed step of None \<Rightarrow> Some add
          | Some s \<Rightarrow> if s \<in> set add then Some (remove1 s add) else None);
       foldO (\<lambda>s add. if s \<in> set add then None else Some (s # add)) (added step) add1
     }"

definition first_referenced_version :: "RemoteWorker list \<Rightarrow> u64 option option" where
  "first_referenced_version ws =
     foldO (\<lambda>w first.
        if getState w = MUST_DIE then Some first
        else case workerSetID w of
            None \<Rightarrow> Some first
          | Some i \<Rightarrow> (case first of
                None \<Rightarrow> Some (Some (wsid_version i))
              | Some v \<Rightarrow> do {
                  earlier \<leftarrow> WorkerSetIDEarlierThan (wsid_version i) v;
                  Some (Some (if earlier then wsid_version i else v))
                })) ws None"

text \<open>The loop over the history: what is left of it, and the workers not yet merged.\<close>

fun prune_loop :: "u64 \<Rightarrow> History \<Rightarrow> string list \<Rightarrow> (History \<times> string list) option" where
  "prune_loop first [] add = Some ([], add)"
| "prune_loop first ((v, step) # h) add =
     do {
       earlier \<leftarrow> WorkerSetIDEarlierThan v first;
       add' \<leftarrow> (if earlier \<or> v = first then mergeHistoryStep step add else None);
       if earlier then prune_loop first h add'
       else Some ((v, \<lparr>removed = None, added = add'\<rparr>) # h, [])
     }"

definition pruneUnusedHistoryVersions :: "RemoteWorkers \<Rightarrow> RemoteWorkers option" where
  "pruneUnusedHistoryVersions R =
     (if length (initialWorkerSetIDs R) < length (indirectVersions R) then None
      else if length (initialWorkerSetIDs R) > length (indirectVersions R) then Some R
      else do {
        first \<leftarrow> first_referenced_version (map snd (workerPool R));
        case first of
          None \<Rightarrow> if initialWorkerSetIDs R = [] then Some (R\<lparr>history := []\<rparr>) else None
        | Some v \<Rightarrow> do {
            (h, add) \<leftarrow> prune_loop v (history R) [];
            if add = [] then Some (R\<lparr>history := h\<rparr>) else None
          }
      })"

text \<open>
  The iterator over the ordered set is the element that it points to, and
  \<open>None\<close> at the end.
\<close>

definition next_after :: "u64 \<times> string \<Rightarrow> VersionShardSet \<Rightarrow> (u64 \<times> string) option" where
  "next_after x vss = (case dropWhile (\<lambda>y. \<not> VersionAndShardEarlierThan x y) vss of [] \<Rightarrow> None | y # _ \<Rightarrow> Some y)"

text \<open>The body of the inner loop: one worker gets the highest version of the step.\<close>

definition propagate_to ::
  "u64 \<times> string \<Rightarrow> RemoteWorkers \<Rightarrow> VersionShardSet \<Rightarrow> (RemoteWorkers \<times> VersionShardSet) option" where
  "propagate_to it R vss =
     do {
       w_top \<leftarrow> getWorker R (snd (last vss));
       new_id \<leftarrow> indirectWorkerSetID w_top;
       w \<leftarrow> getWorker R (snd it);
       cur \<leftarrow> indirectWorkerSetID w;
       if fst (last vss) \<noteq> wsid_version new_id \<or> wsid_schedulerID new_id \<noteq> rws_schedulerID R
          \<or> fst it \<noteq> wsid_version cur \<or> snd it \<noteq> shard (worker w) then None
       else do {
         vss' \<leftarrow> (if it \<in> set vss then addToVersionShardSet (remove1 it vss) new_id (snd it) else Some vss);
         (w', R') \<leftarrow> updateIndirectWorkerSetVersion w new_id R;
         if map_option wsid_version (indirectWorkerSetID w') \<noteq> Some (wsid_version new_id) then None
         else Some (put_worker (snd it) w' R', vss')
       }
     }"

partial_function (option) propagate_while ::
  "u64 \<Rightarrow> RemoteWorkers \<Rightarrow> (u64 \<times> string) option \<Rightarrow> VersionShardSet
     \<Rightarrow> (RemoteWorkers \<times> (u64 \<times> string) option \<times> VersionShardSet) option" where
  "propagate_while v R indir_it vss =
     (case indir_it of
        None \<Rightarrow> Some (R, None, vss)
      | Some it \<Rightarrow> do {
          later \<leftarrow> WorkerSetIDEarlierThan v (fst it);
          if later then Some (R, indir_it, vss)
          else if vss = [] \<or> v \<noteq> fst it then None
          else do {
            (R', vss') \<leftarrow> propagate_to it R vss;
            propagate_while v R' (next_after it (indirectVersions R)) vss'
          }
        })"

declare propagate_while.simps [code]

text \<open>The workers of one step of the history, in the set of their indirect versions.\<close>

definition apply_step :: "RemoteWorkers \<Rightarrow> HistoryStep \<Rightarrow> VersionShardSet \<Rightarrow> VersionShardSet option" where
  "apply_step R step vss =
     do {
       vss1 \<leftarrow> (case removed step of None \<Rightarrow> Some vss
          | Some s \<Rightarrow> do {
              w \<leftarrow> getWorker R s;
              case indirectWorkerSetID w of None \<Rightarrow> Some vss
              | Some i \<Rightarrow> if wsid_schedulerID i = rws_schedulerID R
                  then removeFromVersionShardSet vss i s else None
            });
       foldO (\<lambda>s vss. do {
           w \<leftarrow> getWorker R s;
           case indirectWorkerSetID w of None \<Rightarrow> Some vss
           | Some i \<Rightarrow> if wsid_schedulerID i = rws_schedulerID R
               then addToVersionShardSet vss i s else None
         }) (added step) vss1
     }"

fun propagate_loop ::
  "History \<Rightarrow> RemoteWorkers \<Rightarrow> (u64 \<times> string) option \<Rightarrow> VersionShardSet
     \<Rightarrow> (RemoteWorkers \<times> (u64 \<times> string) option) option" where
  "propagate_loop [] R indir_it vss = Some (R, indir_it)"
| "propagate_loop ((v, step) # h) R indir_it vss =
     (case indir_it of
        None \<Rightarrow> Some (R, None)
      | Some it \<Rightarrow> do {
          earlier \<leftarrow> WorkerSetIDEarlierThan (fst it) v;
          if earlier then None
          else do {
            vss1 \<leftarrow> apply_step R step vss;
            (R', it', vss2) \<leftarrow> propagate_while v R indir_it vss1;
            propagate_loop h R' it' vss2
          }
        })"

definition propagateIndirectWorkerSets :: "RemoteWorkers \<Rightarrow> RemoteWorkers option" where
  "propagateIndirectWorkerSets R =
     do {
       (R', it) \<leftarrow> propagate_loop (history R) R
          (case indirectVersions R of [] \<Rightarrow> None | x # _ \<Rightarrow> Some x) [];
       if it = None then Some R' else None
     }"

section \<open>The initial wait\<close>

fun show_nat :: "nat \<Rightarrow> string" where
  "show_nat n = (if n < 10 then [char_of (48 + n)] else show_nat (n div 10) @ [char_of (48 + n mod 10)])"

definition show_int :: "int \<Rightarrow> string" where
  "show_int i = (if i < 0 then ''-'' @ show_nat (nat (- i)) else show_nat (nat i))"

definition kMinSafeWait :: "RemoteFlags \<Rightarrow> int" where
  "kMinSafeWait F = maxHealthcheckGap F + loseUnhealthyWorkerAfter F + workerCheckInterval F
     + workerSuicideBackoffSafetyMarginSec F + state_workerSuicideTaskKillWaitMs F div 1000 + 1"

text \<open>The scheduler must have started before this time to leave the wait, and the warning.\<close>

definition wait_deadline :: "RemoteFlags \<Rightarrow> int \<Rightarrow> int \<times> string" where
  "wait_deadline F cur_time =
     (let wait = FLAGS_CAUTION_startup_wait_for_workers F
      in if wait < 0 then (cur_time - kMinSafeWait F, [])
         else (cur_time - wait,
           if maxHealthcheckGap F > wait then
             ''DANGER! DANGER! Your --CAUTION_startup_wait_for_workers of '' @ show_int wait
             @ '' is lower than the max healthcheck gap of '' @ show_int (maxHealthcheckGap F)
             @ '', which makes it very likely that you will start second copies of tasks that are ''
             @ ''already running (unless your heartbeat interval is much smaller). ''
           else if kMinSafeWait F > wait then
             ''Your custom --CAUTION_startup_wait_for_workers is less than the minimum safe value of ''
             @ show_int (kMinSafeWait F)
             @ '' -- this increases the risk of starting second copies of tasks that were already running. ''
           else []))"

text \<open>
  Whether all initial worker sets are equal and match the current set.  For an
  empty multiset the code dereferences its end iterator, which is undefined.
\<close>

definition initial_worker_set_id_consensus :: "RemoteWorkers \<Rightarrow> bool option" where
  "initial_worker_set_id_consensus R =
     (case initialWorkerSetIDs R of
        [] \<Rightarrow> None
      | i # is \<Rightarrow> Some (list_all (\<lambda>j. j = i) is \<and> wsid_hash (nonMustDieWorkerSetID R) = wsid_hash i))"

definition no_consensus_message :: string where
  "no_consensus_message = ''No initial worker set ID consensus. ''"

definition waiting_message :: string where
  "waiting_message = ''Waiting for all workers to connect before running tasks.''"

definition fetching_message :: string where
  "fetching_message = ''Ready to exit initial wait, but not all workers' running tasks were ''
     @ ''fetched; not allowing tasks to start until all are fetched.''"

definition updateInitialWait ::
  "RemoteFlags \<Rightarrow> RemoteWorkerUpdate \<Rightarrow> RemoteWorkers \<Rightarrow> (RemoteWorkerUpdate \<times> RemoteWorkers) option" where
  "updateInitialWait F u R =
     (if \<not> inInitialWait R then Some (u\<lparr>initialWaitMessage := []\<rparr>, R)
      else case wait_deadline F (curTime u) of (min_start_time, warning) \<Rightarrow> do {
        consensus \<leftarrow> initial_worker_set_id_consensus R;
        let msg = warning @ (if consensus then [] else no_consensus_message);
        if min_start_time < rws_startTime R \<and> \<not> consensus then
          Some (u\<lparr>initialWaitMessage := msg @ waiting_message\<rparr>, R)
        else if newWorkers u \<noteq> [] then Some (u\<lparr>initialWaitMessage := msg @ fetching_message\<rparr>, R)
        else Some (u\<lparr>initialWaitMessage := []\<rparr>, R\<lparr>inInitialWait := False\<rparr>)
      })"

definition update_one_worker ::
  "RemoteFlags \<Rightarrow> string \<Rightarrow> RemoteWorkerUpdate \<times> RemoteWorkers \<Rightarrow> (RemoteWorkerUpdate \<times> RemoteWorkers) option" where
  "update_one_worker F s = (\<lambda>(u, R). do {
     w \<leftarrow> getWorker R s;
     permits \<leftarrow> consensusPermitsBecomingHealthy R w;
     (w', u', R') \<leftarrow> rw_updateState F rws_cobs permits w u R;
     Some (u', put_worker s w' R')
   })"

definition rws_updateState ::
  "RemoteFlags \<Rightarrow> RemoteWorkerUpdate \<Rightarrow> RemoteWorkers \<Rightarrow> (RemoteWorkerUpdate \<times> RemoteWorkers) option" where
  "rws_updateState F u R =
     (if FLAGS_healthcheck_period F \<le> 0 then None
      else do {
        R1 \<leftarrow> pruneUnusedHistoryVersions R;
        R2 \<leftarrow> propagateIndirectWorkerSets R1;
        (u', R3) \<leftarrow> foldO (update_one_worker F) (map fst (workerPool R2)) (u, R2);
        updateInitialWait F u' R3
      })"

definition rws_initializeRunningTasks ::
  "BistroWorker \<Rightarrow> RunningTask list \<Rightarrow> RemoteWorkers \<Rightarrow> RemoteWorkers option" where
  "rws_initializeRunningTasks b running_tasks R =
     do {
       w \<leftarrow> getWorker R (shard b);
       if getState w \<noteq> NEW then Some R
       else do {
         w' \<leftarrow> rw_initializeRunningTasks running_tasks w;
         Some (put_worker (shard b) w' R)
       }
     }"

definition manuallyExitInitialWait :: "RemoteWorkers \<Rightarrow> RemoteWorkers" where
  "manuallyExitInitialWait R = R\<lparr>inInitialWait := False\<rparr>"


section \<open>The books of the worker set\<close>

text \<open>
  The hash and the initial worker sets that the scheduler maintains are those
  of the workers in its pool that are not lost.
\<close>

definition books :: "LiveWorker multiset \<Rightarrow> RemoteWorkers \<Rightarrow> bool" where
  "books M R \<longleftrightarrow> mset (initialWorkerSetIDs R) = image_mset snd M
     \<and> wsid_hash (nonMustDieWorkerSetID R) = hash_of_workers (image_mset fst M)"

lemma bump_version_books:
  assumes "bump_version step h R = Some R'"
  shows "initialWorkerSetIDs R' = initialWorkerSetIDs R" "wsid_hash (nonMustDieWorkerSetID R') = h"
    "workerPool R' = workerPool R" "inInitialWait R' = inInitialWait R" "rws_startTime R' = rws_startTime R"
    "indirectVersions R' = indirectVersions R" "rws_schedulerID R' = rws_schedulerID R"
  using assms by (auto simp: bump_version_def Let_def bind_eq_Some_conv)

lemma updateIndirect_cases:
  assumes "updateIndirectWorkerSetVersion w i R = Some (w', R')"
  shows "w' = w \<and> R' = R \<or>
    (\<exists>v. w' = w\<lparr>indirectWorkerSetID := Some i\<rparr> \<and> R' = R\<lparr>indirectVersions := v\<rparr>)"
  using assms
  by (auto simp: updateIndirectWorkerSetVersion_def Let_def bind_eq_Some_conv
      split: option.split_asm if_split_asm)

lemma updateIndirect_frame:
  assumes "updateIndirectWorkerSetVersion w i R = Some (w', R')"
  shows "\<exists>j. w' = w\<lparr>indirectWorkerSetID := j\<rparr>" "\<exists>v. R' = R\<lparr>indirectVersions := v\<rparr>"
proof -
  have "\<exists>j. w = w\<lparr>indirectWorkerSetID := j\<rparr>" by (rule exI [of _ "indirectWorkerSetID w"]) simp
  then show "\<exists>j. w' = w\<lparr>indirectWorkerSetID := j\<rparr>" using updateIndirect_cases [OF assms] by blast
  have "\<exists>v. R = R\<lparr>indirectVersions := v\<rparr>" by (rule exI [of _ "indirectVersions R"]) simp
  then show "\<exists>v. R' = R\<lparr>indirectVersions := v\<rparr>" using updateIndirect_cases [OF assms] by blast
qed

lemma dead_worker_cobE:
  assumes "dead_worker_cob w R = Some R'"
  obtains vss h where "initialWorkerSetID w \<in> set (initialWorkerSetIDs R)"
    "removeWorkerIDFromHash (worker_id (worker w)) (wsid_hash (nonMustDieWorkerSetID R)) = Some h"
    "bump_version \<lparr>removed = Some (shard (worker w)), added = []\<rparr> h
       (R\<lparr>initialWorkerSetIDs := remove1 (initialWorkerSetID w) (initialWorkerSetIDs R), indirectVersions := vss\<rparr>)
      = Some R'"
  using assms by (auto simp: dead_worker_cob_def bind_eq_Some_conv split: if_split_asm)

interpretation rws: worker_owner rws_cobs books
proof
  fix w ow ow' M
  assume "newWorkerCob rws_cobs w ow = Some ow'" and "books M ow"
  then show "books (add_mset (live_key w) M) ow'"
    using bump_version_books(1,2) by (fastforce simp: rws_cobs_def new_worker_cob_def books_def live_key_def split: if_split_asm)
next
  fix w ow ow' M
  assume dead: "deadWorkerCob rws_cobs w ow = Some ow'" and books: "books (add_mset (live_key w) M) ow"
  from dead have "dead_worker_cob w ow = Some ow'" by (simp add: rws_cobs_def)
  then obtain vss h where
    h: "removeWorkerIDFromHash (worker_id (worker w)) (wsid_hash (nonMustDieWorkerSetID ow)) = Some h"
    and bump: "bump_version \<lparr>removed = Some (shard (worker w)), added = []\<rparr> h
       (ow\<lparr>initialWorkerSetIDs := remove1 (initialWorkerSetID w) (initialWorkerSetIDs ow), indirectVersions := vss\<rparr>)
      = Some ow'"
    by (rule dead_worker_cobE)
  have "h = hash_of_workers (image_mset fst M)"
    using h books removeWorkerIDFromHash_hash
      [of "worker_id (worker w)" "add_mset (worker_id (worker w)) (image_mset fst M)"]
    by (simp add: books_def live_key_def)
  with bump_version_books(1,2) [OF bump] books show "books M ow'" by (simp add: books_def live_key_def)
next
  fix w s ow w' ow'
  assume "workerSetIDChangeCob rws_cobs w s ow = Some (w', ow')"
  then show "\<exists>i. w' = w\<lparr>indirectWorkerSetID := i\<rparr>"
    using updateIndirect_frame(1) by (auto simp: rws_cobs_def set_id_change_cob_def split: if_split_asm)
next
  fix w s ow w' ow' M
  assume "workerSetIDChangeCob rws_cobs w s ow = Some (w', ow')" "books M ow"
  then show "books M ow'"
    using updateIndirect_frame(2) by (fastforce simp: rws_cobs_def set_id_change_cob_def books_def split: if_split_asm)
qed

text \<open>The callbacks leave everything else alone.\<close>

definition rws_rest :: "RemoteWorkers \<Rightarrow>
    bool \<times> int \<times> BistroInstanceID \<times> (string \<times> RemoteWorker) list \<times> string \<times> (string \<times> HostPool) list" where
  "rws_rest R = (inInitialWait R, rws_startTime R, rws_schedulerID R, workerPool R, pool_nextShard R, hostToWorkerPool R)"

lemma bump_version_rest: "bump_version step h R = Some R' \<Longrightarrow> rws_rest R' = rws_rest R"
  by (auto simp: bump_version_def rws_rest_def Let_def bind_eq_Some_conv)

interpretation rws_frame: worker_owner rws_cobs "\<lambda>M R. rws_rest R = c" for c
proof
  fix w ow ow'
  assume "newWorkerCob rws_cobs w ow = Some ow'" "rws_rest ow = c"
  then show "rws_rest ow' = c"
    by (auto simp: rws_cobs_def new_worker_cob_def rws_rest_def dest!: bump_version_rest split: if_split_asm)
next
  fix w ow ow'
  assume dead: "deadWorkerCob rws_cobs w ow = Some ow'" and "rws_rest ow = c"
  from dead have "dead_worker_cob w ow = Some ow'" by (simp add: rws_cobs_def)
  then obtain vss h where "bump_version \<lparr>removed = Some (shard (worker w)), added = []\<rparr> h
       (ow\<lparr>initialWorkerSetIDs := remove1 (initialWorkerSetID w) (initialWorkerSetIDs ow), indirectVersions := vss\<rparr>)
      = Some ow'"
    by (rule dead_worker_cobE)
  from bump_version_rest [OF this] \<open>rws_rest ow = c\<close> show "rws_rest ow' = c" by (simp add: rws_rest_def)
next
  fix w s ow w' ow'
  assume "workerSetIDChangeCob rws_cobs w s ow = Some (w', ow')"
  then show "\<exists>i. w' = w\<lparr>indirectWorkerSetID := i\<rparr>" by (rule rws.set_change)
next
  fix w s ow w' ow'
  assume "workerSetIDChangeCob rws_cobs w s ow = Some (w', ow')" "rws_rest ow = c"
  then show "rws_rest ow' = c"
    using updateIndirect_frame(2) by (fastforce simp: rws_cobs_def set_id_change_cob_def rws_rest_def split: if_split_asm)
qed

lemma updateState_rest: "rw_updateState F rws_cobs p w u R = Some (w', u', R') \<Longrightarrow> rws_rest R' = rws_rest R"
  using rws_frame.updateState_books by metis

lemma heartbeat_rest: "rw_processHeartbeat F rws_cobs b s p w u R = Some (r, w', u', R') \<Longrightarrow> rws_rest R' = rws_rest R"
  using rws_frame.processHeartbeat_books by metis

subsection \<open>The live workers of a pool\<close>

definition pool_live :: "RemoteWorkers \<Rightarrow> LiveWorker multiset" where
  "pool_live R = sum_list (map (\<lambda>(s, w). live_mset w) (workerPool R))"

lemma sum_list_update:
  fixes f :: "'b \<Rightarrow> 'c::comm_monoid_add"
  assumes "map_of xs k = Some v" "distinct (map fst xs)"
  shows "\<exists>M. sum_list (map (\<lambda>(k, v). f v) xs) = f v + M
    \<and> (\<forall>v'. sum_list (map (\<lambda>(k, v). f v) (AList.update k v' xs)) = f v' + M)"
  using assms
proof (induction xs)
  case Nil
  then show ?case by simp
next
  case (Cons x xs)
  obtain k' y where x: "x = (k', y)" by (cases x)
  show ?case
  proof (cases "k' = k")
    case True
    then show ?thesis using Cons.prems x by (auto intro!: exI [of _ "sum_list (map (\<lambda>(k, v). f v) xs)"])
  next
    case False
    with Cons x obtain M where "sum_list (map (\<lambda>(k, v). f v) xs) = f v + M"
      "\<forall>v'. sum_list (map (\<lambda>(k, v). f v) (AList.update k v' xs)) = f v' + M" by auto
    with False x show ?thesis by (auto intro!: exI [of _ "f y + M"] simp: add.left_commute)
  qed
qed

definition rws_inv :: "RemoteWorkers \<Rightarrow> bool" where
  "rws_inv R \<longleftrightarrow> um_wf (workerPool R) \<and> (\<forall>(s, w) \<in> set (workerPool R). rw_inv w) \<and> books (pool_live R) R"

lemma books_cong:
  "initialWorkerSetIDs R' = initialWorkerSetIDs R \<Longrightarrow> nonMustDieWorkerSetID R' = nonMustDieWorkerSetID R \<Longrightarrow>
     books M R' = books M R"
  by (simp add: books_def)

lemma put_worker_inv:
  assumes inv: "rws_inv R" and w: "getWorker R s = Some w" and rest: "workerPool R' = workerPool R"
    and w': "rw_inv w'" and books: "\<And>M. books (live_mset w + M) R \<Longrightarrow> books (live_mset w' + M) R'"
  shows "rws_inv (put_worker s w' R')"
proof -
  have wf: "distinct (map fst (workerPool R))" and "map_of (workerPool R) s = Some w"
    using inv w by (simp_all add: rws_inv_def um_wf_def getWorker_def)
  from sum_list_update [OF this(2,1), of live_mset] obtain M where
    M: "pool_live R = live_mset w + M" "pool_live (put_worker s w' R') = live_mset w' + M"
    by (auto simp: pool_live_def put_worker_def rest)
  have "books (pool_live (put_worker s w' R')) R'"
    using books inv by (simp add: M rws_inv_def)
  moreover have "um_wf (workerPool (put_worker s w' R'))"
    using wf by (simp add: put_worker_def rest um_wf_def distinct_update)
  moreover have "rw_inv v" if "(k, v) \<in> set (workerPool (put_worker s w' R'))" for k v
  proof -
    have "map_of (AList.update s w' (workerPool R)) k = Some v"
      using that wf by (simp add: put_worker_def rest distinct_update)
    then show ?thesis using inv w'
      by (auto simp: update_conv' rws_inv_def split: if_split_asm dest: map_of_SomeD)
  qed
  ultimately show ?thesis by (auto simp: rws_inv_def put_worker_def books_def)
qed

text \<open>A change of one worker that the books do not see.\<close>

lemma put_worker_inv':
  assumes "rws_inv R" "getWorker R s = Some w" "rw_inv w'" "live_mset w' = live_mset w"
    and "workerPool R' = workerPool R" "initialWorkerSetIDs R' = initialWorkerSetIDs R"
    and "nonMustDieWorkerSetID R' = nonMustDieWorkerSetID R"
  shows "rws_inv (put_worker s w' R')"
  using assms by (intro put_worker_inv [of R s w R' w']) (simp_all add: books_cong [of R' R])

subsection \<open>Operations keep the books\<close>

lemma rws_inv_getWorker: "rws_inv R \<Longrightarrow> getWorker R s = Some w \<Longrightarrow> rw_inv w"
  by (auto simp: rws_inv_def getWorker_def dest!: map_of_SomeD)

lemma rws_inv_cong:
  assumes "workerPool R' = workerPool R" "initialWorkerSetIDs R' = initialWorkerSetIDs R"
    "nonMustDieWorkerSetID R' = nonMustDieWorkerSetID R"
  shows "rws_inv R' = rws_inv R"
  using assms by (simp add: rws_inv_def pool_live_def books_cong [of R' R])

lemma rws_inv_updates [simp]:
  "rws_inv (R\<lparr>hostToWorkerPool := x\<rparr>) = rws_inv R" "rws_inv (R\<lparr>history := h\<rparr>) = rws_inv R"
  "rws_inv (R\<lparr>pool_nextShard := n\<rparr>) = rws_inv R" "rws_inv (R\<lparr>inInitialWait := b\<rparr>) = rws_inv R"
  by (rule rws_inv_cong; simp)+

lemma host_pools_frame:
  "host_pool_emplace h s R = Some R' \<Longrightarrow> \<exists>x. R' = R\<lparr>hostToWorkerPool := x\<rparr>"
  "host_pool_erase h s R = Some R' \<Longrightarrow> \<exists>x. R' = R\<lparr>hostToWorkerPool := x\<rparr>"
  by (auto simp: host_pool_emplace_def host_pool_erase_def put_host_pool_def mutableHostWorkerPool_def Let_def
      split: if_split_asm option.split_asm)

lemma host_pool_inv:
  "host_pool_emplace h s R = Some R' \<Longrightarrow> rws_inv R' = rws_inv R"
  "host_pool_erase h s R = Some R' \<Longrightarrow> rws_inv R' = rws_inv R"
  by (auto dest!: host_pools_frame)

lemma move_host_inv: "move_host s h h' R = Some R' \<Longrightarrow> rws_inv R' = rws_inv R"
  by (auto simp: move_host_def bind_eq_Some_conv split: if_split_asm dest!: host_pools_frame)

lemma mkRemoteWorker_rws:
  assumes "mkRemoteWorker rws_cobs t b s i R = Some (w, R')"
  shows "w = blankRemoteWorker t b s i" "rws_rest R' = rws_rest R" "books M R \<Longrightarrow> books (live_mset w + M) R'"
proof -
  from assms have w: "w = blankRemoteWorker t b s i" and cob: "newWorkerCob rws_cobs w R = Some R'"
    by (auto simp: mkRemoteWorker_def Let_def bind_eq_Some_conv)
  show "w = blankRemoteWorker t b s i" by (rule w)
  show "rws_rest R' = rws_rest R" by (rule rws_frame.new_worker [OF cob refl])
  show "books M R \<Longrightarrow> books (live_mset w + M) R'"
    using rws.new_worker [OF cob] by (simp add: live_mset_def w getState_def)
qed

lemma find_or_add_inv:
  assumes find: "find_or_add_worker b s t R = Some (w, R')" and inv: "rws_inv R"
  shows "rws_inv R' \<and> getWorker R' (shard b) = Some w"
proof (cases "map_of (workerPool R) (shard b)")
  case (Some v)
  with find inv show ?thesis by (auto simp: find_or_add_worker_def getWorker_def)
next
  case None
  with find obtain R1 where mk: "mkRemoteWorker rws_cobs t b s (rws_schedulerID R) R = Some (w, R1)"
    and emp: "host_pool_emplace (hostname (machineLock b)) (shard b)
      (R1\<lparr>workerPool := (shard b, w) # workerPool R1\<rparr>) = Some R'"
    by (auto simp: find_or_add_worker_def bind_eq_Some_conv)
  have pool: "workerPool R1 = workerPool R" using mkRemoteWorker_rws(2) [OF mk] by (simp add: rws_rest_def)
  have "rws_inv (R1\<lparr>workerPool := (shard b, w) # workerPool R1\<rparr>)"
    using inv None mkRemoteWorker_rws(1) [OF mk] mkRemoteWorker_rws(3) [OF mk, of "pool_live R"]
    by (auto simp: rws_inv_def pool pool_live_def um_wf_def map_of_eq_None_iff books_def)
  moreover obtain x where "R' = R1\<lparr>workerPool := (shard b, w) # workerPool R1, hostToWorkerPool := x\<rparr>"
    using host_pools_frame(1) [OF emp] by auto
  ultimately show ?thesis using host_pool_inv(1) [OF emp] by (simp add: getWorker_def)
qed

lemma rws_heartbeat_inv:
  assumes "rws_processHeartbeat F b s u R = Some (Inr (r, u', R'))" and "rws_inv R"
  shows "rws_inv R'"
proof -
  from assms obtain w R1 p r' w' R2 where find: "find_or_add_worker b s (curTime u) R = Some (w, R1)"
    and hb: "rw_processHeartbeat F rws_cobs b s p w u R1 = Some (r', w', u', R2)"
    and move: "move_host (shard b) (hostname (machineLock (worker w))) (hostname (machineLock (worker w')))
      (put_worker (shard b) w' R2) = Some R'"
    by (auto simp: rws_processHeartbeat_def bind_eq_Some_conv split: sum.split_asm)
  have R1: "rws_inv R1" "getWorker R1 (shard b) = Some w"
    using find_or_add_inv [OF find assms(2)] by simp_all
  have "rws_inv (put_worker (shard b) w' R2)"
  proof (rule put_worker_inv [OF R1])
    show "workerPool R2 = workerPool R1" using heartbeat_rest [OF hb] by (simp add: rws_rest_def)
    show "rw_inv w'" using rws.processHeartbeat_inv(1) [OF hb] rws_inv_getWorker [OF R1] by simp
    show "books (live_mset w' + M) R2" if "books (live_mset w + M) R1" for M
      by (rule rws.processHeartbeat_books [OF hb that])
  qed
  then show ?thesis using move_host_inv [OF move] by simp
qed

lemma prune_cases: "pruneUnusedHistoryVersions R = Some R' \<Longrightarrow> R' = R \<or> (\<exists>h. R' = R\<lparr>history := h\<rparr>)"
  by (auto simp: pruneUnusedHistoryVersions_def bind_eq_Some_conv split: if_split_asm option.split_asm)

lemma prune_inv: "pruneUnusedHistoryVersions R = Some R' \<Longrightarrow> rws_inv R' = rws_inv R"
  by (auto dest!: prune_cases)

lemma indirect_inv [simp]:
  "rw_inv (w\<lparr>indirectWorkerSetID := i\<rparr>) = rw_inv w" "live_mset (w\<lparr>indirectWorkerSetID := i\<rparr>) = live_mset w"
  by (simp_all add: live_mset_def live_key_def getState_def)

lemma propagate_to_inv:
  assumes "propagate_to it R vss = Some (R', vss')" "rws_inv R"
  shows "rws_inv R' \<and> rws_startTime R' = rws_startTime R \<and> inInitialWait R' = inInitialWait R"
proof -
  from assms(1) obtain w i w' R1 where w: "getWorker R (snd it) = Some w"
    and upd: "updateIndirectWorkerSetVersion w i R = Some (w', R1)" and R': "R' = put_worker (snd it) w' R1"
    by (auto simp: propagate_to_def bind_eq_Some_conv split: if_split_asm)
  obtain j where "w' = w\<lparr>indirectWorkerSetID := j\<rparr>" using updateIndirect_frame(1) [OF upd] by blast
  moreover obtain v where "R1 = R\<lparr>indirectVersions := v\<rparr>" using updateIndirect_frame(2) [OF upd] by blast
  ultimately show ?thesis
    using put_worker_inv' [OF assms(2) w, of w' R1] rws_inv_getWorker [OF assms(2) w]
    by (simp add: R') (simp add: put_worker_def)
qed

lemma propagate_while_inv:
  assumes "propagate_while v R it vss = Some res" "rws_inv R"
  shows "rws_inv (fst res) \<and> rws_startTime (fst res) = rws_startTime R \<and> inInitialWait (fst res) = inInitialWait R"
proof -
  let ?P = "\<lambda>v R it vss res. rws_inv R \<longrightarrow>
    rws_inv (fst res) \<and> rws_startTime (fst res) = rws_startTime R \<and> inInitialWait (fst res) = inInitialWait R"
  have "?P v R it vss res"
  proof (rule propagate_while.raw_induct [OF _ assms(1), of ?P], goal_cases)
    case (1 f v R it vss res)
    show ?case
    proof (cases "it = None \<or> fst res = R")
      case True
      with 1(2) show ?thesis by auto
    next
      case False
      with 1(2) obtain x R1 vss1 where to: "propagate_to x R vss = Some (R1, vss1)"
        and rec: "f v R1 (next_after x (indirectVersions R)) vss1 = Some res"
        by (auto simp: bind_eq_Some_conv split: if_split_asm)
      from 1(1) [OF rec] propagate_to_inv [OF to] show ?thesis by simp
    qed
  qed
  with assms(2) show ?thesis by simp
qed

lemma propagate_loop_inv:
  assumes "propagate_loop h R it vss = Some (R', it')" "rws_inv R"
  shows "rws_inv R' \<and> rws_startTime R' = rws_startTime R \<and> inInitialWait R' = inInitialWait R"
  using assms
proof (induction h R it vss rule: propagate_loop.induct)
  case (1 R it vss)
  then show ?case by simp
next
  case (2 v step h R it vss)
  show ?case
  proof (cases it)
    case None
    with 2 show ?thesis by simp
  next
    case (Some x)
    with 2(2) obtain vss1 R1 it1 vss2 where
      early: "WorkerSetIDEarlierThan (fst x) v = Some False" and step: "apply_step R step vss = Some vss1"
      and loop: "propagate_while v R it vss1 = Some (R1, it1, vss2)"
      and rest: "propagate_loop h R1 it1 vss2 = Some (R', it')"
      by (auto simp: bind_eq_Some_conv split: if_split_asm)
    have "rws_inv R1 \<and> rws_startTime R1 = rws_startTime R \<and> inInitialWait R1 = inInitialWait R"
      using propagate_while_inv [OF loop 2(3)] by simp
    with 2(1) [OF Some early _ step loop refl refl rest] show ?thesis by simp
  qed
qed

lemma propagate_inv:
  "propagateIndirectWorkerSets R = Some R' \<Longrightarrow> rws_inv R \<Longrightarrow>
     rws_inv R' \<and> rws_startTime R' = rws_startTime R \<and> inInitialWait R' = inInitialWait R"
  by (auto simp: propagateIndirectWorkerSets_def bind_eq_Some_conv split: if_split_asm dest: propagate_loop_inv)

lemma update_keys: "map_of xs k = Some v \<Longrightarrow> fst ` set (AList.update k v' xs) = fst ` set xs"
  by (induction xs) (auto split: if_split_asm)

lemma update_one_worker_step:
  assumes "update_one_worker F s (u, R) = Some (u', R')" "rws_inv R"
  shows "rws_inv R'" "rws_startTime R' = rws_startTime R" "inInitialWait R' = inInitialWait R"
    "k \<noteq> s \<Longrightarrow> getWorker R' k = getWorker R k"
    "fst ` set (workerPool R') = fst ` set (workerPool R)"
    "dom (map_of (newWorkers u)) \<subseteq> dom (map_of (newWorkers u'))" "curTime u' = curTime u"
    "getWorker R' s = Some v \<Longrightarrow> getState v = NEW \<Longrightarrow> newWorkers u' \<noteq> []"
proof -
  from assms(1) obtain w p w' R1 where w: "getWorker R s = Some w"
    and upd: "rw_updateState F rws_cobs p w u R = Some (w', u', R1)" and R': "R' = put_worker s w' R1"
    by (auto simp: update_one_worker_def bind_eq_Some_conv)
  have rest: "rws_rest R1 = rws_rest R" by (rule updateState_rest [OF upd])
  show "rws_inv R'" unfolding R'
  proof (rule put_worker_inv [OF assms(2) w])
    show "workerPool R1 = workerPool R" using rest by (simp add: rws_rest_def)
    show "rw_inv w'" by (rule rw_updateState_inv [OF upd rws_inv_getWorker [OF assms(2) w]])
    show "books (live_mset w' + M) R1" if "books (live_mset w + M) R" for M
      by (rule rws.updateState_books [OF upd that])
  qed
  show "rws_startTime R' = rws_startTime R" "inInitialWait R' = inInitialWait R"
    using rest by (simp_all add: R' rws_rest_def put_worker_def)
  show "k \<noteq> s \<Longrightarrow> getWorker R' k = getWorker R k"
    using rest by (simp add: R' rws_rest_def put_worker_def getWorker_def update_conv')
  show "fst ` set (workerPool R') = fst ` set (workerPool R)"
    using rest w by (simp add: R' rws_rest_def put_worker_def getWorker_def update_keys)
  have new: "(dom (map_of (newWorkers u)) \<subseteq> dom (map_of (newWorkers u')) \<and> curTime u' = curTime u)
    \<and> (getState w' = NEW \<longrightarrow> newWorkers u' \<noteq> [])"
    using rw_updateState_new [OF upd] by auto
  then show "dom (map_of (newWorkers u)) \<subseteq> dom (map_of (newWorkers u'))" "curTime u' = curTime u" by simp_all
  show "getWorker R' s = Some v \<Longrightarrow> getState v = NEW \<Longrightarrow> newWorkers u' \<noteq> []"
    using new by (simp add: R' put_worker_def getWorker_def update_conv')
qed

lemma update_workers_fold:
  assumes "foldO (update_one_worker F) ss (u, R) = Some (u', R')" "rws_inv R"
  shows "rws_inv R' \<and> rws_startTime R' = rws_startTime R \<and> inInitialWait R' = inInitialWait R
    \<and> fst ` set (workerPool R') = fst ` set (workerPool R)
    \<and> dom (map_of (newWorkers u)) \<subseteq> dom (map_of (newWorkers u')) \<and> curTime u' = curTime u
    \<and> (\<forall>k. k \<notin> set ss \<longrightarrow> getWorker R' k = getWorker R k)
    \<and> (\<forall>k v. k \<in> set ss \<longrightarrow> getWorker R' k = Some v \<longrightarrow> getState v = NEW \<longrightarrow> newWorkers u' \<noteq> [])"
  using assms
proof (induction ss arbitrary: u R)
  case Nil
  then show ?case by simp
next
  case (Cons s ss)
  from Cons.prems(1) obtain u1 R1 where step: "update_one_worker F s (u, R) = Some (u1, R1)"
    and rest: "foldO (update_one_worker F) ss (u1, R1) = Some (u', R')"
    by (auto split: option.split_asm)
  note one = update_one_worker_step [OF step Cons.prems(2)]
  from Cons.IH [OF rest one(1)] have
    R': "rws_inv R'" "rws_startTime R' = rws_startTime R1" "inInitialWait R' = inInitialWait R1"
      "fst ` set (workerPool R') = fst ` set (workerPool R1)"
    and new: "dom (map_of (newWorkers u1)) \<subseteq> dom (map_of (newWorkers u'))" and time: "curTime u' = curTime u1"
    and others: "\<And>k. k \<notin> set ss \<Longrightarrow> getWorker R' k = getWorker R1 k"
    and fetched: "\<And>k v. k \<in> set ss \<Longrightarrow> getWorker R' k = Some v \<Longrightarrow> getState v = NEW \<Longrightarrow> newWorkers u' \<noteq> []"
    by blast+
  have first: "newWorkers u' \<noteq> []" if "s \<notin> set ss" "getWorker R' s = Some v" "getState v = NEW" for v
  proof -
    have "getWorker R1 s = Some v" using others [OF that(1)] that(2) by simp
    then have "newWorkers u1 \<noteq> []" by (rule one(8) [OF _ that(3)])
    then show ?thesis using new by (cases "newWorkers u1") auto
  qed
  show ?case
  proof (intro conjI allI impI)
    show "rws_inv R'" by (rule R'(1))
    show "rws_startTime R' = rws_startTime R" "inInitialWait R' = inInitialWait R"
      "fst ` set (workerPool R') = fst ` set (workerPool R)" "curTime u' = curTime u"
      using R'(2-4) one(2,3,5,7) time by simp_all
    show "dom (map_of (newWorkers u)) \<subseteq> dom (map_of (newWorkers u'))" using one(6) new by (rule subset_trans)
    show "getWorker R' k = getWorker R k" if "k \<notin> set (s # ss)" for k
      using that others [of k] one(4) [of k] by simp
    show "newWorkers u' \<noteq> []" if "k \<in> set (s # ss)" "getWorker R' k = Some v" "getState v = NEW" for k v
      using that first fetched by (cases "k \<in> set ss") auto
  qed
qed

lemma updateInitialWait_cases:
  assumes "updateInitialWait F u R = Some (u', R')"
  shows "R' = R \<or> inInitialWait R \<and> R' = R\<lparr>inInitialWait := False\<rparr> \<and> newWorkers u = []
    \<and> (rws_startTime R \<le> fst (wait_deadline F (curTime u)) \<or> initial_worker_set_id_consensus R = Some True)"
  using assms
  by (auto simp: updateInitialWait_def Let_def bind_eq_Some_conv split_beta split: if_split_asm)

lemma updateInitialWait_frame:
  assumes "updateInitialWait F u R = Some (u', R')"
  shows "rws_inv R' = rws_inv R" "workerPool R' = workerPool R" "rws_startTime R' = rws_startTime R"
    "pool_live R' = pool_live R"
  using updateInitialWait_cases [OF assms] by (auto simp: pool_live_def)

lemma rws_updateStateE:
  assumes "rws_updateState F u R = Some (u', R')" "rws_inv R"
  obtains R2 u1 R3 where "rws_inv R2" "rws_startTime R2 = rws_startTime R" "inInitialWait R2 = inInitialWait R"
    "foldO (update_one_worker F) (map fst (workerPool R2)) (u, R2) = Some (u1, R3)"
    "updateInitialWait F u1 R3 = Some (u', R')"
proof -
  from assms(1) obtain R1 R2 u1 R3 where prune: "pruneUnusedHistoryVersions R = Some R1"
    and propg: "propagateIndirectWorkerSets R1 = Some R2"
    and rest: "foldO (update_one_worker F) (map fst (workerPool R2)) (u, R2) = Some (u1, R3)"
      "updateInitialWait F u1 R3 = Some (u', R')"
    by (auto simp: rws_updateState_def bind_eq_Some_conv split: if_split_asm)
  have "rws_inv R1" "rws_startTime R1 = rws_startTime R" "inInitialWait R1 = inInitialWait R"
    using prune_inv [OF prune] prune_cases [OF prune] assms(2) by auto
  with propagate_inv [OF propg] show thesis by (intro that [of R2 u1 R3] rest) simp_all
qed

lemma updateState_inv:
  assumes "rws_updateState F u R = Some (u', R')" "rws_inv R"
  shows "rws_inv R'"
proof -
  from assms obtain R2 u1 R3 where "rws_inv R2"
    and "foldO (update_one_worker F) (map fst (workerPool R2)) (u, R2) = Some (u1, R3)"
    and "updateInitialWait F u1 R3 = Some (u', R')"
    by (rule rws_updateStateE)
  from update_workers_fold [OF this(2,1)] updateInitialWait_frame(1) [OF this(3)] show ?thesis by simp
qed

section \<open>Reachable states\<close>

text \<open>The events of one worker that do not go through its owner.\<close>

inductive worker_event :: "RemoteWorker \<Rightarrow> RemoteWorker \<Rightarrow> bool" where
  run: "isHealthy w \<Longrightarrow> recordRunningTaskStatus rt st w = Some w' \<Longrightarrow> worker_event w w'"
| failed: "recordFailedTask rt st w = Some w' \<Longrightarrow> worker_event w w'"
| status: "recordNonRunningTaskStatus rt st i w = Some (Inr (b, w')) \<Longrightarrow> worker_event w w'"
| unsure: "addUnsureIfRunningTask rt w = Some w' \<Longrightarrow> worker_event w w'"
| polled: "eraseUnsureIfRunningTasks rts w = Some w' \<Longrightarrow> worker_event w w'"
| notify: "calledNotifyIfTasksNotRunning w = (n, w') \<Longrightarrow> worker_event w w'"

text \<open>
  The states of a scheduler started at a time \<open>t\<close>.  Tasks are started on
  healthy workers only, as the worker selectors ensure.
\<close>

inductive workers_reachable :: "RemoteFlags \<Rightarrow> int \<Rightarrow> BistroInstanceID \<Rightarrow> RemoteWorkers \<Rightarrow> bool"
  for F t i where
  start: "workers_reachable F t i (mkRemoteWorkers t i)"
| heartbeat: "workers_reachable F t i R \<Longrightarrow> rws_processHeartbeat F b s u R = Some (Inr (r, u', R')) \<Longrightarrow>
    workers_reachable F t i R'"
| check: "workers_reachable F t i R \<Longrightarrow> rws_updateState F u R = Some (u', R') \<Longrightarrow> workers_reachable F t i R'"
| tasks: "workers_reachable F t i R \<Longrightarrow> rws_initializeRunningTasks b rts R = Some R' \<Longrightarrow> workers_reachable F t i R'"
| event: "workers_reachable F t i R \<Longrightarrow> getWorker R s = Some w \<Longrightarrow> worker_event w w' \<Longrightarrow>
    workers_reachable F t i (put_worker s w' R)"
| pick: "workers_reachable F t i R \<Longrightarrow> rws_getNextWorker R = (found, R') \<Longrightarrow> workers_reachable F t i R'"
| pick_host: "workers_reachable F t i R \<Longrightarrow> getNextWorkerByHost h R = (found, R') \<Longrightarrow> workers_reachable F t i R'"
| exit_wait: "workers_reachable F t i R \<Longrightarrow> workers_reachable F t i (manuallyExitInitialWait R)"

lemma live_mset_cong:
  "worker w' = worker w \<Longrightarrow> initialWorkerSetID w' = initialWorkerSetID w \<Longrightarrow> getState w' = getState w \<Longrightarrow>
     live_mset w' = live_mset w"
  by (simp add: live_mset_def live_key_def)

lemma recordNonRunningImpl_live: "live_mset (snd (recordNonRunningTaskStatusImpl rt st w)) = live_mset w"
  by (rule live_mset_cong) (auto simp: recordNonRunningTaskStatusImpl_def getState_def split: option.split)

lemma eraseUnsure_live:
  assumes "eraseUnsureIfRunningTasks rts w = Some w'"
  shows "live_mset w' = live_mset w"
proof (rule foldO_invariant [OF assms [unfolded eraseUnsureIfRunningTasks_def], where I = "\<lambda>v. live_mset v = live_mset w"],
    goal_cases)
  case 1
  show ?case by (rule refl)
next
  case (2 rt v v')
  then show ?case by (auto simp: live_mset_def live_key_def getState_def split: if_split_asm option.split_asm)
qed

lemma worker_event_inv:
  assumes "worker_event w w'"
  shows "rw_inv w \<Longrightarrow> rw_inv w'" "live_mset w' = live_mset w"
proof -
  have "(rw_inv w \<longrightarrow> rw_inv w') \<and> live_mset w' = live_mset w"
    using assms
  proof cases
    case (run rt st)
    have "live_mset w' = live_mset w"
      using run(2) by (auto simp: recordRunningTaskStatus_def split_beta live_mset_def live_key_def getState_def
          split: if_split_asm)
    with recordRunning_inv [OF run(2)] run(1) show ?thesis by simp
  next
    case (failed rt st)
    have "live_mset w' = live_mset w"
      using failed recordNonRunningImpl_live [of rt st w] by (auto simp: recordFailedTask_def split_beta split: if_split_asm)
    with recordFailed_inv [OF failed] show ?thesis by simp
  next
    case (status rt st i b)
    have "live_mset w' = live_mset w"
      using status recordNonRunningImpl_live [of rt st w]
      by (auto simp: recordNonRunningTaskStatus_def live_mset_def live_key_def getState_def split: if_split_asm)
    with recordNonRunning_inv [OF status] show ?thesis by simp
  next
    case (unsure rt)
    have "live_mset w' = live_mset w"
      using unsure by (auto simp: addUnsureIfRunningTask_def split_beta live_mset_def live_key_def getState_def
          split: if_split_asm)
    with addUnsure_inv [OF unsure] show ?thesis by simp
  next
    case (polled rts)
    with eraseUnsure_inv [OF polled] eraseUnsure_live [OF polled] show ?thesis by simp
  next
    case (notify n)
    then show ?thesis
      by (auto simp: calledNotifyIfTasksNotRunning_def Let_def rw_inv_def live_mset_def live_key_def getState_def)
  qed
  then show "rw_inv w \<Longrightarrow> rw_inv w'" "live_mset w' = live_mset w" by simp_all
qed

lemma initializeRunningTasks_inv:
  assumes "rws_initializeRunningTasks b rts R = Some R'" "rws_inv R"
  shows "rws_inv R'"
proof (cases "R' = R")
  case True
  with assms(2) show ?thesis by simp
next
  case False
  with assms(1) obtain w w' where w: "getWorker R (shard b) = Some w" "getState w = NEW"
    and init: "rw_initializeRunningTasks rts w = Some w'" and R': "R' = put_worker (shard b) w' R"
    by (auto simp: rws_initializeRunningTasks_def bind_eq_Some_conv split: if_split_asm)
  have "worker w' = worker w \<and> initialWorkerSetID w' = initialWorkerSetID w"
    by (rule rw_initialize_frame [OF init])
  moreover note initialize_inv [OF init rws_inv_getWorker [OF assms(2) w(1)]]
  ultimately show ?thesis unfolding R'
    by (intro put_worker_inv' [OF assms(2) w(1)]) (simp_all add: live_mset_def live_key_def w(2))
qed

lemma reachable_inv: "workers_reachable F t i R \<Longrightarrow> rws_inv R"
proof (induction rule: workers_reachable.induct)
  case start
  show ?case by (simp add: rws_inv_def mkRemoteWorkers_def books_def pool_live_def defaultWorkerSetID_def)
next
  case (heartbeat R b s u r u' R')
  then show ?case by (simp add: rws_heartbeat_inv)
next
  case (check R u u' R')
  then show ?case by (simp add: updateState_inv)
next
  case (tasks R b rts R')
  then show ?case by (simp add: initializeRunningTasks_inv)
next
  case (event R s w w')
  then show ?case by (intro put_worker_inv') (auto simp: worker_event_inv rws_inv_getWorker)
next
  case (pick R found R')
  then show ?case by (auto simp: rws_getNextWorker_def split_beta)
next
  case (pick_host R h found R')
  then show ?case
    by (auto simp: getNextWorkerByHost_def mutableHostWorkerPool_def put_host_pool_def split_beta Let_def
        split: option.split_asm)
next
  case (exit_wait R)
  then show ?case by (simp add: manuallyExitInitialWait_def)
qed

section \<open>Properties\<close>

definition live_workers :: "RemoteWorkers \<Rightarrow> RemoteWorker list" where
  "live_workers R = filter (\<lambda>w. getState w \<noteq> MUST_DIE) (map snd (workerPool R))"

lemma pool_live_eq: "pool_live R = image_mset live_key (mset (live_workers R))"
proof -
  have "sum_list (map (\<lambda>(s, w). live_mset w) xs) =
      image_mset live_key (mset (filter (\<lambda>w. getState w \<noteq> MUST_DIE) (map snd xs)))" for xs :: "(string \<times> RemoteWorker) list"
    by (induction xs) (auto simp: live_mset_def)
  then show ?thesis by (simp add: pool_live_def live_workers_def)
qed

lemma books_live:
  assumes "rws_inv R"
  shows "mset (initialWorkerSetIDs R) = mset (map initialWorkerSetID (live_workers R))"
    and "wsid_hash (nonMustDieWorkerSetID R) = hash_of_workers (mset (map (worker_id \<circ> worker) (live_workers R)))"
  using assms
  by (simp_all add: rws_inv_def books_def pool_live_eq live_key_def image_mset.compositionality comp_def)

definition example_scheduler_id :: BistroInstanceID where
  "example_scheduler_id = \<lparr>startTime = 3, rand = 4\<rparr>"

definition example_worker_b :: BistroWorker where
  "example_worker_b = (example_bistro_worker ''w2'')\<lparr>worker_id := \<lparr>startTime = 8, rand = 9\<rparr>\<rparr>"

text \<open>Steps of a scheduler with the updates dropped.\<close>

definition beat :: "int \<Rightarrow> BistroWorker \<Rightarrow> WorkerSetID \<Rightarrow> RemoteWorkers \<Rightarrow> RemoteWorkers option" where
  "beat t b s R = (case rws_processHeartbeat example_flags b s (mkRemoteWorkerUpdate t) R of
     Some (Inr (r, u, R')) \<Rightarrow> Some R' | _ \<Rightarrow> None)"

definition tick :: "int \<Rightarrow> RemoteWorkers \<Rightarrow> RemoteWorkers option" where
  "tick t R = map_option snd (rws_updateState example_flags (mkRemoteWorkerUpdate t) R)"

lemma beat_reachable:
  "workers_reachable example_flags t0 i R \<Longrightarrow> beat t b s R = Some R' \<Longrightarrow> workers_reachable example_flags t0 i R'"
  by (auto simp: beat_def split: option.split_asm sum.split_asm intro: workers_reachable.heartbeat)

lemma tick_reachable:
  "workers_reachable example_flags t0 i R \<Longrightarrow> tick t R = Some R' \<Longrightarrow> workers_reachable example_flags t0 i R'"
  by (auto simp: tick_def intro: workers_reachable.check)

definition example_set :: "u64 \<Rightarrow> BistroInstanceID list \<Rightarrow> WorkerSetID" where
  "example_set v ids = \<lparr>wsid_schedulerID = example_scheduler_id, wsid_version = v,
     wsid_hash = fold addWorkerIDToHash ids emptyWorkerSetHash\<rparr>"

definition example_one :: "RemoteWorkers option" where
  "example_one = beat 0 (example_bistro_worker ''w1'') defaultWorkerSetID (mkRemoteWorkers 0 example_scheduler_id)"

lemma example_one_live:
  "map_option (\<lambda>R. map worker (live_workers R)) example_one = Some [example_bistro_worker ''w1'']"
  by code_simp

text \<open>
  A worker that is lost after it has been told of a newer worker set: the
  first worker connects, reports its (empty) running tasks and echoes the set
  of version 1; a second worker makes version 2, of which the first one is
  told; then the first is lost.
\<close>

definition example_lost :: "RemoteWorkers option" where
  "example_lost = do {
     R1 \<leftarrow> example_one;
     R2 \<leftarrow> rws_initializeRunningTasks (example_bistro_worker ''w1'') [] R1;
     R3 \<leftarrow> beat 5 (example_bistro_worker ''w1'') (example_set 1 [\<lparr>startTime = 7, rand = 42\<rparr>]) R2;
     R4 \<leftarrow> beat 300 example_worker_b defaultWorkerSetID R3;
     R5 \<leftarrow> beat 301 (example_bistro_worker ''w1'') (example_set 1 [\<lparr>startTime = 7, rand = 42\<rparr>]) R4;
     tick 600 R5
   }"

lemma example_lost_states:
  "map_option (\<lambda>R. map_option getState (getWorker R ''w1'')) example_lost = Some (Some MUST_DIE)"
  by code_simp

lemma example_lost_reachable:
  assumes "example_lost = Some R"
  shows "workers_reachable example_flags 0 example_scheduler_id R"
  using assms
  by (auto simp: example_lost_def example_one_def bind_eq_Some_conv)
    (meson beat_reachable tick_reachable workers_reachable.start workers_reachable.tasks)

text \<open>C5: The identity of the worker set.  In every state that a scheduler reaches by
  heartbeats, periodic checks, reports of running tasks, task events and
  changes of the initial wait, the hash that it sends to its workers is the
  hash of exactly the workers in its pool that are not lost, their number is
  the number of initial worker sets that it remembers, which are those of the
  same workers, and a worker that is lost or still new has no running tasks.\<close>

theorem worker_set_books:
  assumes "workers_reachable F t i R"
  shows "wsid_hash (nonMustDieWorkerSetID R) = hash_of_workers (mset (map (worker_id \<circ> worker) (live_workers R)))
    \<and> mset (initialWorkerSetIDs R) = mset (map initialWorkerSetID (live_workers R))
    \<and> numWorkers (wsid_hash (nonMustDieWorkerSetID R)) = int (length (initialWorkerSetIDs R))
    \<and> (\<forall>s w. getWorker R s = Some w \<longrightarrow> getState w \<in> {NEW, MUST_DIE} \<longrightarrow> rw_runningTasks w = [])"
proof -
  have inv: "rws_inv R" by (rule reachable_inv [OF assms])
  have "length (initialWorkerSetIDs R) = length (live_workers R)"
    using books_live(1) [OF inv] by (metis length_map mset_eq_length)
  then show ?thesis
    using books_live [OF inv] rws_inv_getWorker [OF inv] by (auto simp: numWorkers_hash rw_inv_def)
qed

theorem worker_set_books_witness:
  "\<exists>R. example_lost = Some R
     \<and> numWorkers (wsid_hash (nonMustDieWorkerSetID R)) = int (length (initialWorkerSetIDs R))
     \<and> (\<exists>w. getWorker R ''w1'' = Some w \<and> getState w = MUST_DIE \<and> rw_runningTasks w = [])"
proof -
  obtain R w where R: "example_lost = Some R" and w: "getWorker R ''w1'' = Some w" "getState w = MUST_DIE"
    using example_lost_states by auto
  from worker_set_books [OF example_lost_reachable [OF R]] w R show ?thesis by blast
qed

text \<open>The wait, in seconds, of a scheduler that does not know its workers.\<close>

definition initial_wait_sec :: "RemoteFlags \<Rightarrow> int" where
  "initial_wait_sec F = (if FLAGS_CAUTION_startup_wait_for_workers F < 0 then kMinSafeWait F
     else FLAGS_CAUTION_startup_wait_for_workers F)"

lemma wait_deadline_fst: "fst (wait_deadline F t) = t - initial_wait_sec F"
  by (simp add: wait_deadline_def initial_wait_sec_def Let_def)

lemma consensus_live:
  assumes "rws_inv R" "initial_worker_set_id_consensus R = Some True" "w \<in> set (live_workers R)"
  shows "wsid_hash (initialWorkerSetID w) = hash_of_workers (mset (map (worker_id \<circ> worker) (live_workers R)))"
proof -
  obtain j js where ids: "initialWorkerSetIDs R = j # js" and "\<forall>k \<in> set js. k = j"
    and hash: "wsid_hash (nonMustDieWorkerSetID R) = wsid_hash j"
    using assms(2) by (auto simp: initial_worker_set_id_consensus_def list_all_iff split: list.split_asm)
  moreover have "initialWorkerSetID w \<in> set (initialWorkerSetIDs R)"
    using books_live(1) [OF assms(1)] assms(3) by (metis image_eqI list.set_map set_mset_mset)
  ultimately show ?thesis using books_live(2) [OF assms(1)] by auto
qed


definition example_back :: "RemoteWorkers option" where
  "example_back = do {
     R1 \<leftarrow> beat 0 (example_bistro_worker ''w1'')
            ((example_set 5 [\<lparr>startTime = 7, rand = 42\<rparr>])\<lparr>wsid_schedulerID := defaultInstanceID\<rparr>)
            (mkRemoteWorkers 0 example_scheduler_id);
     rws_initializeRunningTasks (example_bistro_worker ''w1'') [] R1
   }"

lemma example_back_exits:
  "map_option inInitialWait example_back = Some True
   \<and> map_option (inInitialWait \<circ> snd)
       (Option.bind example_back (rws_updateState example_flags (mkRemoteWorkerUpdate 10))) = Some False"
  by code_simp




subsection \<open>Round robin\<close>

text \<open>The workers that consecutive calls find in an unchanged pool.\<close>

fun picks :: "nat \<Rightarrow> string list \<Rightarrow> string \<Rightarrow> string option list" where
  "picks 0 shards next = []"
| "picks (Suc n) shards next =
     (case getNextWorker shards next of (found, next') \<Rightarrow> found # picks n shards next')"

lemma dropWhile_distinct_nth:
  "distinct xs \<Longrightarrow> k < length xs \<Longrightarrow> dropWhile (\<lambda>x. x \<noteq> xs ! k) xs = drop k xs"
proof (induction xs arbitrary: k)
  case (Cons x xs)
  then show ?case by (cases k) auto
qed simp

lemma getNextWorker_nth:
  assumes "distinct shards" "k < length shards"
  shows "getNextWorker shards (shards ! k) = (Some (shards ! k), shards ! (Suc k mod length shards))"
proof -
  have "dropWhile (\<lambda>s. s \<noteq> shards ! k) shards = drop k shards"
    by (rule dropWhile_distinct_nth [OF assms])
  moreover have "shards ! k \<in> set shards" "shards \<noteq> []" using assms(2) by auto
  moreover have "tl (drop k shards) = drop (Suc k) shards" by (simp add: drop_Suc tl_drop)
  ultimately show ?thesis
    using assms(2) by (cases "Suc k = length shards")
      (auto simp: getNextWorker_def Let_def hd_conv_nth Cons_nth_drop_Suc [symmetric] split: list.split)
qed

lemma picks_nth:
  "distinct shards \<Longrightarrow> k < length shards \<Longrightarrow>
     picks n shards (shards ! k) = map (\<lambda>j. Some (shards ! ((k + j) mod length shards))) [0..<n]"
proof (induction n arbitrary: k)
  case 0
  then show ?case by simp
next
  case (Suc n)
  have "Suc k mod length shards < length shards" using Suc.prems(2) by (intro mod_less_divisor) auto
  from Suc.IH [OF Suc.prems(1) this] have
    "picks n shards (shards ! (Suc k mod length shards)) =
       map (\<lambda>j. Some (shards ! ((Suc k mod length shards + j) mod length shards))) [0..<n]" .
  also have "\<dots> = map (\<lambda>j. Some (shards ! ((k + Suc j) mod length shards))) [0..<n]"
    by (simp add: mod_add_left_eq)
  finally show ?case
    using getNextWorker_nth [OF Suc.prems] Suc.prems(2)
    by (simp add: upt_conv_Cons map_Suc_upt [symmetric] comp_def del: upt_Suc)
qed

text \<open>C12: Fair choice of workers.  In a pool of \<open>n\<close> workers, \<open>n\<close> consecutive calls of
  \<^verbatim>\<open>getNextWorker\<close> return each worker exactly once, in a rotation of the
  iteration order, whatever the iterator refers to at the start; the next
  round starts where this one began.\<close>

theorem round_robin_visits_all:
  assumes "distinct shards" "shards \<noteq> []"
  shows "\<exists>k. picks (length shards) shards next = map Some (rotate k shards)
    \<and> picks (2 * length shards) shards next = map Some (rotate k shards @ rotate k shards)"
proof -
  let ?n = "length shards"
  have "(if next \<in> set shards then next else hd shards) \<in> set shards" using assms(2) by simp
  then obtain k where k: "k < ?n" "(if next \<in> set shards then next else hd shards) = shards ! k"
    unfolding in_set_conv_nth by metis
  have "getNextWorker shards next = getNextWorker shards (shards ! k)"
    unfolding getNextWorker_def k(2) using nth_mem [OF k(1)] assms(2) by (simp only: if_True if_False)
  then have "picks m shards next = picks m shards (shards ! k)" for m
    by (cases m) (simp_all only: picks.simps)
  then have eq: "picks m shards next = map (\<lambda>j. Some (shards ! ((k + j) mod ?n))) [0..<m]" for m
    by (simp add: picks_nth [OF assms(1) k(1)])
  have rot: "map (\<lambda>j. Some (shards ! ((k + j) mod ?n))) [0..<?n] = map Some (rotate k shards)"
    by (rule nth_equalityI) (simp_all add: nth_rotate)
  moreover have "map (\<lambda>j. Some (shards ! ((k + j) mod ?n))) [0..<2 * ?n] = map Some (rotate k shards @ rotate k shards)"
  proof -
    have "[0..<2 * ?n] = [0..<?n] @ map (\<lambda>j. j + ?n) [0..<?n]"
      using upt_add_eq_append [of 0 ?n ?n] map_add_upt [of ?n ?n] by (simp add: mult_2)
    moreover have "(k + (j + ?n)) mod ?n = (k + j) mod ?n" for j
      by (simp flip: add.assoc)
    ultimately show ?thesis by (simp add: comp_def flip: rot)
  qed
  ultimately show ?thesis by (intro exI [of _ k]) (simp add: eq)
qed

theorem round_robin_visits_all_witness:
  "\<exists>k. picks 3 [''a'', ''b'', ''c''] ''b'' = map Some (rotate k [''a'', ''b'', ''c''])"
proof -
  have d: "distinct [''a'', ''b'', ''c'']" and ne: "[''a'', ''b'', ''c''] \<noteq> []"
    and l: "length [''a'', ''b'', ''c''] = 3" by simp_all
  from round_robin_visits_all [OF d ne, of "''b''"] show ?thesis unfolding l by (elim exE conjE) (rule exI)
qed

end
