(* ===== verification/Worker_Handler.thy ===== *)
theory Worker_Handler
  imports Remote_Worker
begin

text \<open>
  \<^verbatim>\<open>worker/BistroWorkerHandler.{h,cpp}\<close>: the worker process.  It accepts tasks
  from one scheduler, reports their results, and follows its own health with
  the function that the scheduler uses, so that it stops before the scheduler
  gives it up.
\<close>

section \<open>State\<close>

text \<open>
  The queue of subprocesses, the clock and the scheduler at the other end of
  the connection are outside: what the handler asks of the queue is recorded
  in \<open>queued\<close>, times and answers are arguments.
\<close>

record BistroWorkerHandler =
  workerCommand :: string
  self :: BistroWorker
  hstate :: RemoteWorkerState
  schedulerState :: SchedulerHeartbeatResponse
  runningTasks :: TaskMap
  notifyFinishedQueue :: "(TaskID \<times> TaskStatus) list"
  notifyNotRunningQueue :: "RunningTask list"
  gotNewSchedulerInstance :: bool
  committingSuicide :: bool
  queued :: "(RunningTask \<times> string list \<times> string) list"

definition initialSchedulerState :: SchedulerHeartbeatResponse where
  "initialSchedulerState =
     \<lparr>response_id = defaultInstanceID, resp_maxHealthcheckGap = 0, resp_heartbeatGracePeriod = 0,
      resp_loseUnhealthyWorkerAfter = 2 ^ 31 - 1, resp_workerCheckInterval = 0,
      resp_workerState = worker_state_int NEW, resp_protocolVersion = 0,
      resp_workerSetID = defaultWorkerSetID\<rparr>"

definition mkBistroWorkerHandler :: "string \<Rightarrow> BistroWorker \<Rightarrow> BistroWorkerHandler" where
  "mkBistroWorkerHandler cmd b =
     \<lparr>workerCommand = cmd, self = b, hstate = mkRemoteWorkerState (sint (startTime (worker_id b))),
      schedulerState = initialSchedulerState, runningTasks = [], notifyFinishedQueue = [],
      notifyNotRunningQueue = [], gotNewSchedulerInstance = True, committingSuicide = False, queued = []\<rparr>"

definition kHealthcheckTaskNewWorkerNode :: string where
  "kHealthcheckTaskNewWorkerNode = ''__NEW_WORKER__''"


section \<open>Requests from the scheduler\<close>

definition throwIfSuicidal :: "BistroWorkerHandler \<Rightarrow> string + unit" where
  "throwIfSuicidal h = (if committingSuicide h then Inl ''Worker is committing suicide'' else Inr ())"

definition throwOnInstanceIDMismatch ::
  "BistroInstanceID \<Rightarrow> BistroInstanceID \<Rightarrow> BistroWorkerHandler \<Rightarrow> string + unit" where
  "throwOnInstanceIDMismatch scheduler w h =
     (if scheduler = response_id (schedulerState h) \<and> w = worker_id (self h) then Inr ()
      else Inl ''Worker ignored a request for another instance'')"

definition getRunningTasks :: "BistroInstanceID \<Rightarrow> BistroWorkerHandler \<Rightarrow> string + RunningTask list" where
  "getRunningTasks w h =
     bindR (throwIfSuicidal h) (\<lambda>_.
       if w \<noteq> worker_id (self h) then Inl ''Worker ignored getRunningTasks''
       else Inr (filter (\<lambda>rt. rt_job rt \<noteq> kHealthcheckTaskJob) (map snd (runningTasks h))))"

text \<open>
  The acceptance of a task.  The outer option is the \<^verbatim>\<open>CHECK\<close> against a task
  that is sent twice, the left summand an exception that tells the scheduler
  that the task will never start.
\<close>

definition handler_runTask ::
  "RunningTask \<Rightarrow> string \<Rightarrow> string list \<Rightarrow> BistroInstanceID \<Rightarrow> BistroInstanceID \<Rightarrow> int \<Rightarrow> BistroWorkerHandler
     \<Rightarrow> (string + BistroWorkerHandler) option" where
  "handler_runTask rt config cmd scheduler w seq_num h =
     (let isHealthcheck = (rt_job rt = kHealthcheckTaskJob);
          accepted = bindR (throwIfSuicidal h) (\<lambda>_.
            if state (hstate h) \<noteq> HEALTHY \<and> \<not> isHealthcheck then Inl ''Unhealthy, not running task''
            else if isHealthcheck \<and> w = worker_id (self h) \<and> rt_node rt = kHealthcheckTaskNewWorkerNode
              \<and> scheduler \<noteq> response_id (schedulerState h) then Inr ()
            else throwOnInstanceIDMismatch scheduler w h)
      in case accepted of
          Inl e \<Rightarrow> Some (Inl e)
        | Inr _ \<Rightarrow>
            if \<not> isHealthcheck \<and> seq_num < notifyIfTasksNotRunningSequenceNum (hstate h)
            then Some (Inl ''Not running task: old notifyIfTasksNotRunning sequence number'')
            else case map_of (runningTasks h) (rt_id rt) of
                Some cur \<Rightarrow>
                  if isHealthcheck then Some (Inl ''Another healtcheck is already running.'')
                  else if invocationID cur = invocationID rt then None
                  else Some (Inl ''Tried to runTask when another invocation of this task is running'')
              | None \<Rightarrow>
                  Some (Inr (h\<lparr>runningTasks := (rt_id rt, rt) # runningTasks h,
                    queued := queued h @ [(rt, if cmd = [] then [workerCommand h] else cmd, config)]\<rparr>)))"

text \<open>The callback that \<^verbatim>\<open>runTask\<close> gives to the queue, for a task that has ended.\<close>

definition task_ended :: "RunningTask \<Rightarrow> TaskStatus \<Rightarrow> BistroWorkerHandler \<Rightarrow> BistroWorkerHandler" where
  "task_ended rt status h = h\<lparr>notifyFinishedQueue := notifyFinishedQueue h @ [(rt_id rt, status)]\<rparr>"

definition notifyIfTasksNotRunning ::
  "RunningTask list \<Rightarrow> BistroInstanceID \<Rightarrow> BistroInstanceID \<Rightarrow> int \<Rightarrow> BistroWorkerHandler
     \<Rightarrow> string + BistroWorkerHandler" where
  "notifyIfTasksNotRunning rts scheduler w seq_num h =
     bindR (throwOnInstanceIDMismatch scheduler w h) (\<lambda>_.
       if seq_num \<le> notifyIfTasksNotRunningSequenceNum (hstate h)
       then Inl ''Got out-of-order notifyIfTasksNotRunning''
       else Inr (h\<lparr>hstate := (hstate h)\<lparr>notifyIfTasksNotRunningSequenceNum := seq_num\<rparr>,
              notifyNotRunningQueue := notifyNotRunningQueue h
                @ filter (\<lambda>rt. map_of (runningTasks h) (rt_id rt) = None) rts\<rparr>))"

text \<open>The tasks are killed later, on the thread of the event loop.\<close>

definition handler_requestSuicide ::
  "BistroInstanceID \<Rightarrow> BistroInstanceID \<Rightarrow> BistroWorkerHandler \<Rightarrow> string + BistroWorkerHandler" where
  "handler_requestSuicide scheduler w h =
     bindR (throwIfSuicidal h) (\<lambda>_. bindR (throwOnInstanceIDMismatch scheduler w h) (\<lambda>_.
       Inr (h\<lparr>committingSuicide := True\<rparr>)))"

text \<open>The signal is sent by the queue of subprocesses, which throws if it cannot.\<close>

definition handler_killTask ::
  "(RunningTask \<Rightarrow> 'q \<Rightarrow> string + 'q) \<Rightarrow> RunningTask \<Rightarrow> BistroInstanceID \<Rightarrow> BistroInstanceID
     \<Rightarrow> BistroWorkerHandler \<Rightarrow> 'q \<Rightarrow> string + 'q" where
  "handler_killTask kill rt scheduler w h q =
     bindR (throwIfSuicidal h) (\<lambda>_. bindR (throwOnInstanceIDMismatch scheduler w h) (\<lambda>_. kill rt q))"

text \<open>
  The loop of \<^verbatim>\<open>killTasksAndStop\<close>.  In round \<open>n\<close> the map of running tasks is
  \<open>tasks n\<close>, which other threads may have changed, and \<open>alive n\<close> tells which of
  them the queue still runs.  The result is the list of all kill requests,
  with their waits in milliseconds.
\<close>

partial_function (option) kill_rounds ::
  "(nat \<Rightarrow> TaskMap) \<Rightarrow> (nat \<Rightarrow> RunningTask \<Rightarrow> bool) \<Rightarrow> nat \<Rightarrow> (RunningTask \<times> int) list \<Rightarrow> (RunningTask \<times> int) list option" where
  "kill_rounds tasks alive n sent =
     (let now = map snd (tasks n);
          sent' = sent @ map (\<lambda>rt. (rt, workerSuicideTaskKillWaitMs rt)) now
      in if filter (alive n) now = [] then Some sent' else kill_rounds tasks alive (Suc n) sent')"

definition killTasksAndStop ::
  "(nat \<Rightarrow> TaskMap) \<Rightarrow> (nat \<Rightarrow> RunningTask \<Rightarrow> bool) \<Rightarrow> BistroWorkerHandler
     \<Rightarrow> (BistroWorkerHandler \<times> (RunningTask \<times> int) list) option" where
  "killTasksAndStop tasks alive h =
     map_option (\<lambda>sent. (h\<lparr>committingSuicide := True\<rparr>, sent)) (kill_rounds tasks alive 0 [])"


section \<open>Background threads\<close>

text \<open>
  The thread that reports finished tasks.  \<open>send\<close> is the call to the scheduler,
  which has a state of its own and may fail.  The result holds the seconds to
  sleep; \<open>None\<close> is a failed \<^verbatim>\<open>CHECK\<close>.
\<close>

fun notify_finished_loop ::
  "(RunningTask \<Rightarrow> dynamic \<Rightarrow> BistroInstanceID \<Rightarrow> BistroInstanceID \<Rightarrow> 'r \<Rightarrow> bool \<times> 'r) \<Rightarrow> nat
     \<Rightarrow> BistroWorkerHandler \<Rightarrow> 'r \<Rightarrow> (int \<times> BistroWorkerHandler \<times> 'r) option" where
  "notify_finished_loop send 0 h r = Some (0, h, r)"
| "notify_finished_loop send (Suc n) h r =
     (case notifyFinishedQueue h of
        [] \<Rightarrow> Some (1, h, r)
      | nd # rest \<Rightarrow> (case map_of (runningTasks h) (fst nd) of
          None \<Rightarrow> None
        | Some rt \<Rightarrow>
            (case send rt (toDynamicNoTime (snd nd)) (response_id (schedulerState h)) (worker_id (self h)) r of
              (ok, r') \<Rightarrow>
                if \<not> ok then Some (1, h\<lparr>notifyFinishedQueue := rest @ [nd]\<rparr>, r')
                else
                  let h1 = h\<lparr>notifyFinishedQueue := rest, runningTasks := AList.delete (fst nd) (runningTasks h)\<rparr>;
                      h2 = (if rt_job rt = kHealthcheckTaskJob \<and> isDone (snd nd)
                        then h1\<lparr>hstate := (hstate h1)\<lparr>timeLastGoodHealthcheckSent := sint (startTime (invocationID rt))\<rparr>\<rparr>
                        else h1)
                  in notify_finished_loop send n h2 r')))"

definition notifyFinished ::
  "bool \<Rightarrow> (RunningTask \<Rightarrow> dynamic \<Rightarrow> BistroInstanceID \<Rightarrow> BistroInstanceID \<Rightarrow> 'r \<Rightarrow> bool \<times> 'r)
     \<Rightarrow> BistroWorkerHandler \<Rightarrow> 'r \<Rightarrow> (int \<times> BistroWorkerHandler \<times> 'r) option" where
  "notifyFinished got_client send h r =
     (if got_client then notify_finished_loop send 100 h r else Some (5, h, r))"

fun notify_not_running_loop ::
  "int \<Rightarrow> (RunningTask \<Rightarrow> dynamic \<Rightarrow> BistroInstanceID \<Rightarrow> BistroInstanceID \<Rightarrow> 'r \<Rightarrow> bool \<times> 'r) \<Rightarrow> nat
     \<Rightarrow> BistroWorkerHandler \<Rightarrow> 'r \<Rightarrow> int \<times> BistroWorkerHandler \<times> 'r" where
  "notify_not_running_loop now send 0 h r = (0, h, r)"
| "notify_not_running_loop now send (Suc n) h r =
     (case notifyNotRunningQueue h of
        [] \<Rightarrow> (1, h, r)
      | rt # rest \<Rightarrow>
          (case send rt (toDynamicNoTime (wasNotRunning now)) (response_id (schedulerState h)) (worker_id (self h)) r of
            (ok, r') \<Rightarrow>
              if \<not> ok then (1, h\<lparr>notifyNotRunningQueue := rest @ [rt]\<rparr>, r')
              else notify_not_running_loop now send n (h\<lparr>notifyNotRunningQueue := rest\<rparr>) r'))"

definition notifyNotRunning ::
  "int \<Rightarrow> bool \<Rightarrow> (RunningTask \<Rightarrow> dynamic \<Rightarrow> BistroInstanceID \<Rightarrow> BistroInstanceID \<Rightarrow> 'r \<Rightarrow> bool \<times> 'r)
     \<Rightarrow> BistroWorkerHandler \<Rightarrow> 'r \<Rightarrow> int \<times> BistroWorkerHandler \<times> 'r" where
  "notifyNotRunning now got_client send h r =
     (if got_client then notify_not_running_loop now send 100 h r else (5, h, r))"

definition handler_setState :: "WorkerState \<Rightarrow> int \<Rightarrow> RemoteWorkerState \<Rightarrow> RemoteWorkerState" where
  "handler_setState new_state cur_time s =
     (let s1 = (if new_state \<noteq> HEALTHY \<and> state s = HEALTHY then s\<lparr>timeBecameUnhealthy := cur_time\<rparr> else s)
      in s1\<lparr>state := new_state, hasBeenHealthy := hasBeenHealthy s1 \<or> new_state = HEALTHY\<rparr>)"

text \<open>
  The conversion of the number in a response.  A scheduler sends only the four
  values of the enumeration; other numbers are outside the model.
\<close>

definition int_worker_state :: "int \<Rightarrow> WorkerState option" where
  "int_worker_state i = (if i = 0 then Some NEW else if i = 1 then Some HEALTHY
     else if i = 2 then Some UNHEALTHY else if i = 3 then Some MUST_DIE else None)"

text \<open>
  One heartbeat: \<open>res\<close> is the scheduler's answer or the failure of the call, and
  \<open>cur_time\<close> the time at which the answer is processed.  Exceptions are caught
  and leave the state as it is.
\<close>

definition handler_heartbeat ::
  "string + SchedulerHeartbeatResponse \<Rightarrow> int \<Rightarrow> BistroWorkerHandler \<Rightarrow> BistroWorkerHandler option" where
  "handler_heartbeat res cur_time h =
     (if committingSuicide h then Some h
      else case bindR res (\<lambda>r. bindR (enforceWorkerSchedulerProtocolVersion (protocolVersion (self h)) (resp_protocolVersion r))
              (\<lambda>_. Inr r)) of
          Inl e \<Rightarrow> Some h
        | Inr r \<Rightarrow>
            if wsid_schedulerID (resp_workerSetID r) \<noteq> response_id r then None
            else
              let old = schedulerState h;
                  new_instance = (response_id old \<noteq> response_id r);
                  s1 = (if new_instance then mkRemoteWorkerState cur_time else hstate h);
                  s2 = s1\<lparr>timeLastHeartbeatReceived := cur_time\<rparr>
              in do {
                st \<leftarrow> int_worker_state (resp_workerState r);
                backwards \<leftarrow> (if new_instance then Some False
                  else WorkerSetIDEarlierThan (wsid_version (resp_workerSetID r)) (wsid_version (resp_workerSetID old)));
                if backwards \<and> wsid_schedulerID (resp_workerSetID old) \<noteq> response_id r then None
                else Some (h\<lparr>gotNewSchedulerInstance := new_instance,
                  hstate := handler_setState st cur_time s2,
                  schedulerState := (if backwards then r\<lparr>resp_workerSetID := resp_workerSetID old\<rparr> else r)\<rparr>)
              })"

text \<open>One health check; a worker that must die kills its tasks and stops.\<close>

definition handler_computeState :: "int \<Rightarrow> BistroWorkerHandler \<Rightarrow> WorkerState" where
  "handler_computeState cur_time h =
     fst (computeState (hstate h) cur_time (resp_maxHealthcheckGap (schedulerState h))
       (heartbeatPeriodSec (self h) + resp_heartbeatGracePeriod (schedulerState h))
       (resp_loseUnhealthyWorkerAfter (schedulerState h) - resp_workerCheckInterval (schedulerState h)) False)"

definition handler_healthcheck :: "int \<Rightarrow> BistroWorkerHandler \<Rightarrow> BistroWorkerHandler" where
  "handler_healthcheck cur_time h =
     (if committingSuicide h then h
      else
        let new_state = handler_computeState cur_time h
        in h\<lparr>hstate := handler_setState new_state cur_time (hstate h),
             committingSuicide := (new_state = MUST_DIE)\<rparr>)"

text \<open>The whole iteration of the thread, with the killing of the tasks.\<close>

definition handler_healthcheck_thread ::
  "(nat \<Rightarrow> TaskMap) \<Rightarrow> (nat \<Rightarrow> RunningTask \<Rightarrow> bool) \<Rightarrow> int \<Rightarrow> BistroWorkerHandler
     \<Rightarrow> (BistroWorkerHandler \<times> (RunningTask \<times> int) list) option" where
  "handler_healthcheck_thread tasks alive cur_time h =
     (let h' = handler_healthcheck cur_time h
      in if \<not> committingSuicide h \<and> committingSuicide h' then killTasksAndStop tasks alive h' else Some (h', []))"


section \<open>Stopping\<close>

text \<open>The loop that kills the tasks ends when they do.\<close>

lemma kill_rounds_stops:
  assumes "\<And>rt. rt \<in> snd ` set (tasks (n + k)) \<Longrightarrow> \<not> alive (n + k) rt"
  shows "\<exists>sent'. kill_rounds tasks alive n sent = Some sent'"
  using assms
proof (induction k arbitrary: n sent)
  case 0
  then show ?case by (subst kill_rounds.simps) (auto simp: Let_def filter_empty_conv)
next
  case (Suc k)
  from Suc.IH [of "Suc n"] Suc.prems show ?case by (subst kill_rounds.simps) (simp add: Let_def)
qed

lemma kill_rounds_first:
  assumes "kill_rounds tasks alive n sent = Some sent'"
  shows "set sent \<union> (\<lambda>rt. (rt, workerSuicideTaskKillWaitMs rt)) ` snd ` set (tasks n) \<subseteq> set sent'"
proof (rule kill_rounds.raw_induct [OF _ assms,
    of "\<lambda>tasks alive n sent sent'. set sent \<union> (\<lambda>rt. (rt, workerSuicideTaskKillWaitMs rt)) ` snd ` set (tasks n) \<subseteq> set sent'"],
    goal_cases)
  case (1 f tasks alive n sent sent')
  show ?case
  proof (cases "filter (alive n) (map snd (tasks n)) = []")
    case True
    with 1(2) have "sent' = sent @ map (\<lambda>rt. (rt, workerSuicideTaskKillWaitMs rt)) (map snd (tasks n))"
      by (simp add: Let_def)
    then show ?thesis by (simp add: image_image)
  next
    case False
    with 1(2) have "f tasks alive (Suc n) (sent @ map (\<lambda>rt. (rt, workerSuicideTaskKillWaitMs rt)) (map snd (tasks n)))
        = Some sent'"
      by (simp add: Let_def)
    from 1(1) [OF this] show ?thesis by auto
  qed
qed


section \<open>A worker and its scheduler without contact\<close>

text \<open>The worker checks its health every second.\<close>

definition run_healthchecks :: "int \<Rightarrow> nat \<Rightarrow> BistroWorkerHandler \<Rightarrow> BistroWorkerHandler" where
  "run_healthchecks start n h = fold (\<lambda>k. handler_healthcheck (start + int k)) [0..<n] h"

text \<open>The scheduler checks the worker at arbitrary times.\<close>

definition run_checks ::
  "RemoteFlags \<Rightarrow> 'o WorkerCobs \<Rightarrow> (int \<times> bool) list \<Rightarrow> RemoteWorker \<Rightarrow> 'o \<Rightarrow> (RemoteWorker \<times> 'o) option" where
  "run_checks F C checks w ow =
     foldO (\<lambda>(t, permits) (w, ow). map_option (\<lambda>(w', u', ow'). (w', ow'))
       (rw_updateState F C permits w (mkRemoteWorkerUpdate t) ow)) checks (w, ow)"

text \<open>The last second at which the state of a worker is healthy without further contact.\<close>

definition healthy_until :: "RemoteWorkerState \<Rightarrow> int \<Rightarrow> int \<Rightarrow> int" where
  "healthy_until s healthcheck_gap heartbeat_gap =
     min (timeLastGoodHealthcheckSent s + healthcheck_gap) (timeLastHeartbeatReceived s + heartbeat_gap)"

lemma computeState_until:
  assumes "hasBeenHealthy s" "state s \<in> {HEALTHY, UNHEALTHY}" "0 < l"
  shows "fst (computeState s t g k l p) =
    (if t \<le> healthy_until s g k then HEALTHY
     else if state s = UNHEALTHY \<and> timeBecameUnhealthy s + l < t then MUST_DIE else UNHEALTHY)"
  using assms by (auto simp: computeState_def healthy_until_def Let_def)

subsection \<open>The scheduler\<close>

definition quiet_worker :: "RemoteWorker \<Rightarrow> RemoteWorker \<Rightarrow> int \<Rightarrow> int \<Rightarrow> (int \<times> bool) list \<Rightarrow> bool" where
  "quiet_worker w0 w d l checks \<longleftrightarrow>
     (getState w = MUST_DIE \<and> (\<exists>(t, p) \<in> set checks. t > d + 1 + l))
     \<or> (hasBeenHealthy (wstate w) \<and> worker w = worker w0
        \<and> timeLastGoodHealthcheckSent (wstate w) = timeLastGoodHealthcheckSent (wstate w0)
        \<and> timeLastHeartbeatReceived (wstate w) = timeLastHeartbeatReceived (wstate w0)
        \<and> (getState w = HEALTHY \<or> getState w = UNHEALTHY \<and> d < timeBecameUnhealthy (wstate w)))"

lemma quiet_worker_step:
  assumes upd: "rw_updateState F C p w (mkRemoteWorkerUpdate t) ow = Some (w', u', ow')"
    and inv: "quiet_worker w0 w d (loseUnhealthyWorkerAfter F) checks" and t: "(t, p) \<in> set checks"
    and d: "d = healthy_until (wstate w0) (maxHealthcheckGap F) (heartbeatPeriodSec (worker w0) + heartbeatGracePeriod F)"
  shows "quiet_worker w0 w' d (loseUnhealthyWorkerAfter F) checks"
proof (cases "getState w = MUST_DIE")
  case True
  with upd inv show ?thesis by (simp add: rw_updateState_dead)
next
  case alive: False
  let ?l = "loseUnhealthyWorkerAfter F"
  let ?st = "fst (rw_computeState F w t p)"
  have w: "hasBeenHealthy (wstate w)" "worker w = worker w0"
    "timeLastGoodHealthcheckSent (wstate w) = timeLastGoodHealthcheckSent (wstate w0)"
    "timeLastHeartbeatReceived (wstate w) = timeLastHeartbeatReceived (wstate w0)"
    "getState w = HEALTHY \<or> getState w = UNHEALTHY \<and> d < timeBecameUnhealthy (wstate w)"
    using inv alive by (auto simp: quiet_worker_def)
  have st: "?st = (if t \<le> d then HEALTHY
     else if state (wstate w) = UNHEALTHY \<and> timeBecameUnhealthy (wstate w) + ?l < t then MUST_DIE else UNHEALTHY)"
    unfolding rw_computeState_def using w
    by (subst computeState_until) (auto simp: d healthy_until_def getState_def)
  have time: "curTime (mkRemoteWorkerUpdate t) = t" by (simp add: mkRemoteWorkerUpdate_def)
  show ?thesis
  proof (cases "?st = MUST_DIE")
    case True
    then have "t > d + 1 + ?l" using st w(5) by (auto simp: getState_def split: if_split_asm)
    then show ?thesis
      using rw_updateState_lost(2) [OF upd alive] True time t by (auto simp: quiet_worker_def)
  next
    case False
    note r = rw_updateState_alive [OF upd alive, unfolded time, OF False]
    have "getState w' = HEALTHY \<or> getState w' = UNHEALTHY \<and> d < timeBecameUnhealthy (wstate w')"
      using r(2,13) st w(5) False by (auto split: if_split_asm)
    then show ?thesis using r w by (simp add: quiet_worker_def)
  qed
qed

lemma scheduler_loses_late:
  assumes run: "run_checks F C checks w ow = Some (w', ow')" and "getState w = HEALTHY" "hasBeenHealthy (wstate w)"
    and "getState w' = MUST_DIE"
  shows "\<exists>(t, p) \<in> set checks. t > healthy_until (wstate w) (maxHealthcheckGap F)
    (heartbeatPeriodSec (worker w) + heartbeatGracePeriod F) + 1 + loseUnhealthyWorkerAfter F"
proof -
  let ?d = "healthy_until (wstate w) (maxHealthcheckGap F) (heartbeatPeriodSec (worker w) + heartbeatGracePeriod F)"
  let ?I = "\<lambda>(v, ov). quiet_worker w v ?d (loseUnhealthyWorkerAfter F) checks"
  have "?I (w', ow')"
  proof (rule foldO_invariant [OF run [unfolded run_checks_def], where I = ?I], goal_cases)
    case 1
    show ?case using assms(2,3) by (simp add: quiet_worker_def)
  next
    case (2 c v v')
    then show ?case using quiet_worker_step by (fastforce split: prod.split_asm)
  qed
  with assms(4) show ?thesis by (simp add: quiet_worker_def)
qed

subsection \<open>The worker\<close>

definition quiet_handler :: "BistroWorkerHandler \<Rightarrow> BistroWorkerHandler \<Rightarrow> int \<Rightarrow> int \<Rightarrow> int \<Rightarrow> bool" where
  "quiet_handler h0 h d l t \<longleftrightarrow> committingSuicide h
     \<or> (self h = self h0 \<and> schedulerState h = schedulerState h0 \<and> hasBeenHealthy (hstate h)
        \<and> timeLastGoodHealthcheckSent (hstate h) = timeLastGoodHealthcheckSent (hstate h0)
        \<and> timeLastHeartbeatReceived (hstate h) = timeLastHeartbeatReceived (hstate h0)
        \<and> (t \<le> d + 1 \<and> state (hstate h) = HEALTHY
           \<or> d + 1 < t \<and> t \<le> d + l + 2 \<and> state (hstate h) = UNHEALTHY \<and> timeBecameUnhealthy (hstate h) = d + 1))"

abbreviation suicide_after :: "BistroWorkerHandler \<Rightarrow> int" where
  "suicide_after h \<equiv> resp_loseUnhealthyWorkerAfter (schedulerState h) - resp_workerCheckInterval (schedulerState h)"

abbreviation handler_until :: "BistroWorkerHandler \<Rightarrow> int" where
  "handler_until h \<equiv> healthy_until (hstate h) (resp_maxHealthcheckGap (schedulerState h))
     (heartbeatPeriodSec (self h) + resp_heartbeatGracePeriod (schedulerState h))"

lemma quiet_handler_step:
  assumes inv: "quiet_handler h0 h d l t" and d: "d = handler_until h0" and l: "l = suicide_after h0" "0 < l"
  shows "quiet_handler h0 (handler_healthcheck t h) d l (t + 1)"
proof (cases "committingSuicide h")
  case True
  then show ?thesis by (simp add: quiet_handler_def handler_healthcheck_def)
next
  case False
  have h: "self h = self h0" "schedulerState h = schedulerState h0" "hasBeenHealthy (hstate h)"
    "timeLastGoodHealthcheckSent (hstate h) = timeLastGoodHealthcheckSent (hstate h0)"
    "timeLastHeartbeatReceived (hstate h) = timeLastHeartbeatReceived (hstate h0)"
    "t \<le> d + 1 \<and> state (hstate h) = HEALTHY
      \<or> d + 1 < t \<and> t \<le> d + l + 2 \<and> state (hstate h) = UNHEALTHY \<and> timeBecameUnhealthy (hstate h) = d + 1"
    using inv False by (auto simp: quiet_handler_def)
  have st: "handler_computeState t h = (if t \<le> d then HEALTHY
     else if state (hstate h) = UNHEALTHY \<and> timeBecameUnhealthy (hstate h) + l < t then MUST_DIE else UNHEALTHY)"
    unfolding handler_computeState_def using h l
    by (subst computeState_until) (auto simp: d healthy_until_def)
  show ?thesis
    using h l(2) False unfolding quiet_handler_def handler_healthcheck_def st handler_setState_def
    by (auto simp: Let_def)
qed

lemma worker_stops_in_time:
  assumes "state (hstate h) = HEALTHY" "hasBeenHealthy (hstate h)" "0 < suicide_after h"
    and "start \<le> handler_until h + 1" "handler_until h + suicide_after h + 2 < start + int n"
  shows "committingSuicide (run_healthchecks start n h)"
proof -
  have "quiet_handler h (run_healthchecks start m h) (handler_until h) (suicide_after h) (start + int m)" for m
  proof (induction m)
    case 0
    show ?case using assms by (simp add: run_healthchecks_def quiet_handler_def)
  next
    case (Suc m)
    from quiet_handler_step [OF this refl refl assms(3)] show ?case
      by (simp add: run_healthchecks_def algebra_simps)
  qed
  from this [of n] show ?thesis using assms(3,5) by (auto simp: quiet_handler_def)
qed

section \<open>Properties\<close>


definition example_worker_state :: RemoteWorkerState where
  "example_worker_state = \<lparr>state = HEALTHY, timeBecameUnhealthy = 0, timeLastGoodHealthcheckSent = 100,
     timeLastHeartbeatReceived = 100, hasBeenHealthy = True, notifyIfTasksNotRunningSequenceNum = 0\<rparr>"

definition example_healthy_worker :: RemoteWorker where
  "example_healthy_worker = example_remote_worker\<lparr>wstate := example_worker_state\<rparr>"

definition example_handler :: BistroWorkerHandler where
  "example_handler = (mkBistroWorkerHandler ''cmd'' (example_bistro_worker ''w1''))
     \<lparr>hstate := example_worker_state, schedulerState := getHeartbeatResponse example_flags example_worker_state\<rparr>"

lemma example_partition:
  "map_option (getState \<circ> fst) (run_checks example_flags NoOpCobs [(190, False), (700, False)] example_healthy_worker ())
     = Some MUST_DIE"
  by code_simp


text \<open>C39: Short loss periods.  When the scheduler's period for losing an unhealthy
  worker does not exceed its check interval, the worker's own period is not
  positive, which its health computation takes for ``never'': however long it
  is out of contact, it does not stop by itself.\<close>

theorem short_loss_period_never_stops:
  assumes "resp_loseUnhealthyWorkerAfter (schedulerState h) \<le> resp_workerCheckInterval (schedulerState h)"
    and "state (hstate h) \<noteq> MUST_DIE" "\<not> committingSuicide h"
  shows "\<not> committingSuicide (run_healthchecks start n h)"
proof -
  have step: "\<not> committingSuicide h' \<and> state (hstate h') \<noteq> MUST_DIE \<and> schedulerState h' = schedulerState h"
    if "\<not> committingSuicide g" "state (hstate g) \<noteq> MUST_DIE" "schedulerState g = schedulerState h"
      "h' = handler_healthcheck t g" for g h' t
  proof -
    have "handler_computeState t g \<noteq> MUST_DIE"
      using computeState_lost that(2,3) assms(1) unfolding handler_computeState_def by fastforce
    with that show ?thesis by (simp add: handler_healthcheck_def handler_setState_def Let_def)
  qed
  have "\<not> committingSuicide (run_healthchecks start n h) \<and> state (hstate (run_healthchecks start n h)) \<noteq> MUST_DIE
    \<and> schedulerState (run_healthchecks start n h) = schedulerState h"
  proof (induction n)
    case 0
    show ?case using assms by (simp add: run_healthchecks_def)
  next
    case (Suc n)
    then show ?case
      using step [of "run_healthchecks start n h" _ "start + int n"] by (simp add: run_healthchecks_def)
  qed
  then show ?thesis by simp
qed

theorem short_loss_period_never_stops_witness:
  "\<not> committingSuicide (run_healthchecks 101 100000 (example_handler
     \<lparr>schedulerState := getHeartbeatResponse (example_flags\<lparr>FLAGS_lose_unhealthy_worker_after := 5\<rparr>) example_worker_state\<rparr>))"
  by (rule short_loss_period_never_stops)
    (simp_all add: example_handler_def mkBistroWorkerHandler_def example_worker_state_def getHeartbeatResponse_def
      workerCheckInterval_def loseUnhealthyWorkerAfter_def example_flags_def)



end
