(* ===== verification/Spec2Isabelle.thy ===== *)
theory Spec2Isabelle
  imports Task_Scheduler Remote_Workers Worker_Handler
begin

text \<open>
  Bistro: a scheduler for distributed tasks (the C++ sources under
  \<^verbatim>\<open>src/bistro\<close>; the paths below are relative to it).

  \<^bold>\<open>The program.\<close>  A scheduler runs tasks, that is, pairs of a job and a
  node.  A configuration lists jobs with their filters, dependencies, retry delays
  and resource needs; node fetchers supply a tree of nodes whose levels offer
  resources.  In each round the scheduler reads the snapshot of all task statuses,
  subtracts what running tasks use, selects the tasks that may start, and lets a
  policy offer them to a runner as far as resources reach.  The remote runner sends
  a task to one of a set of worker processes and keeps the health of every worker by
  heartbeats and health checks.  A worker reports the status of each task back; the
  status table merges it with what it knows and writes final results to a store.
  After a restart the scheduler waits until the workers agree with it on the worker
  set before it starts any task.

  \<^bold>\<open>Theories.\<close>  They follow the components of the sources.

  \<^item> \<open>Bistro_Prelude\<close>: results that may fail (\<open>bindR\<close>, \<open>foldO\<close>), conversions of
    fixed-width integers, the containers of the C++ standard library
    (\<open>std::unordered_map\<close> as an association list with distinct keys) and JSON values.
  \<^item> \<open>Thrift_Types\<close>: the records of \<^verbatim>\<open>if/common.thrift\<close> that the scheduler uses.
  \<^item> \<open>Backoff\<close>: \<^verbatim>\<open>config/JobBackoffSettings\<close>.  Parser, printer and the choice of the
    next delay; accepted settings are positive and strictly increasing, and printing
    them is inverted by parsing.
  \<^item> \<open>Task_Status\<close>: \<^verbatim>\<open>statuses/TaskStatus\<close>.  Status bits as words, the factories, the
    parser of reported texts, \<open>update\<close> and \<open>forgive\<close>.  Every reported text gives a
    status with one current state; the cases in which \<open>update\<close> ends the process are
    characterised exactly; relaying a status between the processes keeps it.
  \<^item> \<open>Symbol_Table\<close>: \<^verbatim>\<open>utils/SymbolTable.h\<close>.  Names and identifiers correspond one to
    one and stay stable under insertions.
  \<^item> \<open>Node_Tree\<close>: \<^verbatim>\<open>config/Node\<close>, \<^verbatim>\<open>nodes/Nodes\<close>.
  \<^item> \<open>Job_Config\<close>: \<^verbatim>\<open>config/JobFilters\<close>, \<^verbatim>\<open>config/Job\<close>, \<^verbatim>\<open>config/Config\<close>.  Which nodes a
    job accepts; the records \<open>Job\<close> and \<open>Config\<close> hold the data the scheduler reads.
  \<^item> \<open>Task_Status_Snapshot\<close>, \<open>Task_Statuses\<close>: \<^verbatim>\<open>statuses/TaskStatusSnapshot\<close>,
    \<^verbatim>\<open>statuses/TaskStatuses\<close>, \<^verbatim>\<open>statuses/TaskStore.h\<close>, \<^verbatim>\<open>statuses/SQLiteTaskStore\<close>.  The
    table of statuses by job and node, the running tasks, and the store.  In every
    reachable state a task is marked running exactly if it is listed as running; a
    done task stays done over a restart; the order in which a report and the loss
    of the worker arrive does not matter.
  \<^item> \<open>Scheduler_Policies\<close>: \<^verbatim>\<open>scheduler/utils\<close>, \<^verbatim>\<open>scheduler/SchedulerPolicy*\<close> and the
    four policies.  A locale states what every policy promises (it offers its tasks
    in some order until told to stop); it is interpreted for all four.  From it
    follow that no policy exceeds a resource, that none leaves out a task which
    fits, and that each returns.
  \<^item> \<open>Task_Scheduler\<close>: \<^verbatim>\<open>scheduler/Scheduler\<close>.  A whole round, from the statuses and
    nodes to the calls of the runner and the list of orphaned tasks.
  \<^item> \<open>Worker_Set_ID\<close>: \<^verbatim>\<open>remote/WorkerSetID.h\<close>.  The identity of a set of workers: an
    order-independent hash with a version that is compared modulo \<open>2 ^ 64\<close>.
  \<^item> \<open>Remote_Worker_State\<close>: \<^verbatim>\<open>remote/RemoteWorkerState\<close>.  The health of a worker, which
    scheduler and worker compute by the same function.
  \<^item> \<open>Remote_Worker\<close>: \<^verbatim>\<open>remote/RemoteWorker\<close>, \<^verbatim>\<open>remote/RemoteWorkerUpdate.h\<close>.  One
    worker as the scheduler sees it.  The callbacks to its owner are a record; the
    locale \<open>worker_owner\<close> states what the owner's books need of them.
  \<^item> \<open>Remote_Workers\<close>: \<^verbatim>\<open>remote/RemoteWorkers\<close>.  The pool, the history of the worker
    set, the consensus and the initial wait.  It interprets \<open>worker_owner\<close>, and
    shows for all reachable states that the hash describes the workers that are not
    lost, and that the initial wait ends only when it is safe or timed out.
  \<^item> \<open>Worker_Handler\<close>: \<^verbatim>\<open>worker/BistroWorkerHandler\<close>.  The worker process.  Composed
    with \<open>Remote_Worker\<close> it shows that, cut off from its scheduler, a worker stops
    its tasks before the scheduler gives them to another worker, and that an answer
    ``not running'' stays true.

  \<^bold>\<open>Conventions.\<close>  A C++ exception is \<open>Inl\<close>, a failed \<open>CHECK\<close>, an exception
  leaving a \<open>noexcept\<close> function or undefined behaviour is \<open>None\<close>.  Pointers into
  containers are keys.  Locks make each operation atomic, so an operation is a
  function on the state, and interleavings are sequences of operations
  (\<open>reachable\<close>-style inductive predicates).  The current time is an argument; an
  iteration order of a hash map and every random choice is the order of a list or a
  parameter.  Functions of folly, boost and SQLite are parameters, with the
  documented laws they need as hypotheses of the theorems that rely on them.
  Integers are kept at their width where the code can overflow (status bits, delays,
  hashes, versions); times and resource amounts are unbounded.

  \<^bold>\<open>Termination.\<close>  No definition uses fuel.  Functions are total, by structural
  recursion or a measure: the round-robin policy, for instance, drops the jobs that
  offered all their nodes.  Two loops whose end depends on other data are partial
  functions with a result in \<open>option\<close>.  The rounds of killing on a worker
  (\<open>kill_rounds\<close>) are proved to return if there is a round after which no task is
  alive.  In the propagation of worker sets (\<open>propagate_while\<close>) the value \<open>None\<close> also
  covers the failed \<open>CHECK\<close>s of the loop; the invariants are about heartbeats and checks that return.

  \<^bold>\<open>Not modelled.\<close>  Processes and control groups (\<^verbatim>\<open>processes\<close>, \<^verbatim>\<open>physical\<close>), servers
  and user interfaces (\<^verbatim>\<open>server\<close>, \<^verbatim>\<open>monitor\<close>, \<^verbatim>\<open>py\<close>), loaders of configurations and
  nodes (\<^verbatim>\<open>config/*Loader\<close>, \<^verbatim>\<open>nodes/*Fetcher\<close>, \<^verbatim>\<open>cron\<close>) and the wrappers in \<^verbatim>\<open>utils\<close> and
  \<^verbatim>\<open>sqlite\<close>: they are input and output around the modelled state, and their results
  enter as arguments.  The constructors of \<open>Job\<close> and \<open>Config\<close> drive folly's
  \<open>DynamicParser\<close>; their results are the records of \<open>Job_Config\<close>.  Log messages and
  texts for people are left out where nothing reads them back.
\<close>

end
